theory Spec2Isabelle
  imports Main "HOL-Library.Sublist"
begin


section \<open>Python values that cross function boundaries\<close>

text \<open>
  Exceptions of the Python runtime are values. \<open>UpstreamError\<close> stands for whatever
  the chat-completion client raises, \<open>ToolError\<close> for whatever a wrapped tool raises,
  \<open>ReError\<close> for \<^verbatim>\<open>re.error\<close>.
\<close>

datatype error =
    IndexError
  | KeyError
  | TypeError
  | ValueError
  | AttributeError
  | OverflowError
  | UnboundLocalError
  | JSONDecodeError
  | ReError
  | UpstreamError
  | ToolError

section \<open>utils/completions.py: chat histories\<close>

text \<open>
  \<^verbatim>\<open>list.pop(i)\<close>: a negative index counts from the end, an index out of range raises
  IndexError and leaves the list as it was.
\<close>

definition py_pop :: "int \<Rightarrow> 'a list \<Rightarrow> (error + 'a) \<times> 'a list" where
  "py_pop i xs =
     (let n = int (length xs); j = (if i < 0 then i + n else i)
      in if 0 \<le> j \<and> j < n
         then (Inr (xs ! nat j), take (nat j) xs @ drop (Suc (nat j)) xs)
         else (Inl IndexError, xs))"

text \<open>
  \<^verbatim>\<open>class ChatHistory(list)\<close> and \<^verbatim>\<open>class FixedFirstChatHistory(ChatHistory)\<close>: the object is
  the list itself (\<open>entries\<close>) with one more attribute, \<open>total_length\<close>. The class of the
  object decides which \<^verbatim>\<open>append\<close> a call reaches.
\<close>

datatype history_class = ChatHistory_class | FixedFirstChatHistory_class

record 'a history =
  entries :: "'a list"
  total_length :: int
  history_class :: history_class

text \<open>
  The constructors. \<^verbatim>\<open>messages\<close> defaults to \<^verbatim>\<open>None\<close> (an empty list) and
  \<^verbatim>\<open>total_length\<close> to \<open>-1\<close>; a caller that leaves them out passes these values.
\<close>

definition ChatHistory :: "'a list option \<Rightarrow> int \<Rightarrow> 'a history" where
  "ChatHistory messages n =
     \<lparr>entries = (case messages of None \<Rightarrow> [] | Some ms \<Rightarrow> ms),
      total_length = n, history_class = ChatHistory_class\<rparr>"

definition FixedFirstChatHistory :: "'a list option \<Rightarrow> int \<Rightarrow> 'a history" where
  "FixedFirstChatHistory messages n =
     (ChatHistory messages n)\<lparr>history_class := FixedFirstChatHistory_class\<rparr>"

text \<open>
  A method returns its outcome (\<open>None\<close>: it returned, \<open>Some e\<close>: it raised \<open>e\<close>) and the
  object as the call leaves it.
\<close>

definition ChatHistory_append :: "'a \<Rightarrow> 'a history \<Rightarrow> error option \<times> 'a history" where
  "ChatHistory_append msg self =
     (if int (length (entries self)) = total_length self
      then (case py_pop 0 (entries self) of
              (Inl e, xs) \<Rightarrow> (Some e, self\<lparr>entries := xs\<rparr>)
            | (Inr _, xs) \<Rightarrow> (None, self\<lparr>entries := xs @ [msg]\<rparr>))
      else (None, self\<lparr>entries := entries self @ [msg]\<rparr>))"

definition FixedFirstChatHistory_append :: "'a \<Rightarrow> 'a history \<Rightarrow> error option \<times> 'a history" where
  "FixedFirstChatHistory_append msg self =
     (if int (length (entries self)) = total_length self
      then (case py_pop 1 (entries self) of
              (Inl e, xs) \<Rightarrow> (Some e, self\<lparr>entries := xs\<rparr>)
            | (Inr _, xs) \<Rightarrow> (None, self\<lparr>entries := xs @ [msg]\<rparr>))
      else (None, self\<lparr>entries := entries self @ [msg]\<rparr>))"

definition history_append :: "'a \<Rightarrow> 'a history \<Rightarrow> error option \<times> 'a history" where
  "history_append msg self =
     (case history_class self of
        ChatHistory_class \<Rightarrow> ChatHistory_append msg self
      | FixedFirstChatHistory_class \<Rightarrow> FixedFirstChatHistory_append msg self)"

text \<open>A sequence of appends; the first one that raises ends it.\<close>

fun appends :: "'a list \<Rightarrow> 'a history \<Rightarrow> error option \<times> 'a history" where
  "appends [] h = (None, h)"
| "appends (m # ms) h =
     (case history_append m h of
        (Some e, h') \<Rightarrow> (Some e, h')
      | (None, h') \<Rightarrow> appends ms h')"

text \<open>A message is the dict \<^verbatim>\<open>{"role": ..., "content": ...}\<close>.\<close>

record message =
  role :: string
  content :: string

definition build_prompt_structure :: "string \<Rightarrow> string \<Rightarrow> string \<Rightarrow> message" where
  "build_prompt_structure prompt role' tag =
     (let prompt = (if tag \<noteq> [] then ''<'' @ tag @ ''>'' @ prompt @ ''</'' @ tag @ ''>'' else prompt)
      in \<lparr>role = role', content = prompt\<rparr>)"

text \<open>
  \<^verbatim>\<open>update_chat_history(history, msg, role)\<close> calls \<^verbatim>\<open>history.append\<close>, which is the
  method of the object's class.
\<close>

definition update_chat_history ::
  "message history \<Rightarrow> string \<Rightarrow> string \<Rightarrow> error option \<times> message history" where
  "update_chat_history history msg role' =
     history_append (build_prompt_structure msg role' []) history"

text \<open>
  The chat-completion service is outside the repository: a client is a function of the
  service's state \<open>'w\<close>, the messages sent and the model name, which answers with a text
  or raises, and leaves the service in a new state.
  \<^verbatim>\<open>completions_create\<close> returns the text of the first choice.
\<close>

type_synonym 'w client = "'w \<Rightarrow> message list \<Rightarrow> string \<Rightarrow> (error + string) \<times> 'w"

definition completions_create ::
  "'w client \<Rightarrow> message list \<Rightarrow> string \<Rightarrow> 'w \<Rightarrow> (error + string) \<times> 'w" where
  "completions_create client messages model w = client w messages model"

section \<open>reflection\_pattern/reflection\_agent.py\<close>

definition BASE_GENERATION_SYSTEM_PROMPT :: string where
  "BASE_GENERATION_SYSTEM_PROMPT =
     ''\<newline>Your task is to Generate the best content possible for the user's request.\<newline>'' @
     ''If the user provides critique, respond with a revised version of your previous attempt.\<newline>'' @
     ''You must always output the revised content.\<newline>''"

definition BASE_REFLECTION_SYSTEM_PROMPT :: string where
  "BASE_REFLECTION_SYSTEM_PROMPT =
     ''\<newline>You are tasked with generating critique and recommendations to the user's generated content.\<newline>'' @
     ''If the user content has something wrong or something to be improved, output a list of recommendations\<newline>'' @
     ''and critiques. If the user content is ok and there's nothing to change, output this: <OK>\<newline>''"

text \<open>
  Both agent classes set \<^verbatim>\<open>self.client\<close> and \<^verbatim>\<open>self.model\<close> in \<^verbatim>\<open>__init__\<close>; a
  \<^verbatim>\<open>ReflectionAgent\<close> has no other attribute.
\<close>

record 'w agent =
  client :: "'w client"
  model :: string

type_synonym 'w ReflectionAgent = "'w agent"

text \<open>
  \<^verbatim>\<open>_request_completion\<close>, \<^verbatim>\<open>generate\<close> and \<^verbatim>\<open>reflect\<close>. The \<^verbatim>\<open>verbose\<close> argument only
  selects what is printed, and printing is left out throughout.
\<close>

definition request_completion ::
  "'w ReflectionAgent \<Rightarrow> message history \<Rightarrow> 'w \<Rightarrow> (error + string) \<times> 'w" where
  "request_completion self history w =
     completions_create (client self) (entries history) (model self) w"

definition generate ::
  "'w ReflectionAgent \<Rightarrow> message history \<Rightarrow> 'w \<Rightarrow> (error + string) \<times> 'w" where
  "generate self generation_history w = request_completion self generation_history w"

definition reflect ::
  "'w ReflectionAgent \<Rightarrow> message history \<Rightarrow> 'w \<Rightarrow> (error + string) \<times> 'w" where
  "reflect self reflection_history w = request_completion self reflection_history w"

text \<open>\<^verbatim>\<open>sub in s\<close> on strings: \<open>sub\<close> occurs in \<open>s\<close> as a contiguous piece.\<close>

fun py_in :: "string \<Rightarrow> string \<Rightarrow> bool" where
  "py_in sub [] = (sub = [])"
| "py_in sub (c # cs) = (prefix sub (c # cs) \<or> py_in sub cs)"

text \<open>
  The local variables of \<^verbatim>\<open>ReflectionAgent.run\<close>. \<open>generation\<close> and \<open>critique\<close> are
  \<open>None\<close> until the loop body assigns them. \<open>world\<close> is the state of the completion
  service. \<open>trace\<close> is not a variable of the source: it records, for each iteration
  that obtained both, the draft and the critique, so that properties can count
  iterations and speak about the critiques of a run.
\<close>

record 'w run_state =
  generation_history :: "message history"
  reflection_history :: "message history"
  generation :: "string option"
  critique :: "string option"
  world :: 'w
  trace :: "(string \<times> string) list"

datatype flow = Continue | Break

text \<open>One pass through the body of \<^verbatim>\<open>for step in range(n_steps)\<close>.\<close>

definition loop_body :: "'w ReflectionAgent \<Rightarrow> 'w run_state \<Rightarrow> (error + flow) \<times> 'w run_state" where
  "loop_body self st =
     (case generate self (generation_history st) (world st) of
        (Inl e, w1) \<Rightarrow> (Inl e, st\<lparr>world := w1\<rparr>)
      | (Inr g, w1) \<Rightarrow>
     (let st = st\<lparr>world := w1, generation := Some g\<rparr> in
      case update_chat_history (generation_history st) g ''assistant'' of
        (Some e, gh) \<Rightarrow> (Inl e, st\<lparr>generation_history := gh\<rparr>)
      | (None, gh) \<Rightarrow>
     (let st = st\<lparr>generation_history := gh\<rparr> in
      case update_chat_history (reflection_history st) g ''user'' of
        (Some e, rh) \<Rightarrow> (Inl e, st\<lparr>reflection_history := rh\<rparr>)
      | (None, rh) \<Rightarrow>
     (let st = st\<lparr>reflection_history := rh\<rparr> in
      case reflect self (reflection_history st) (world st) of
        (Inl e, w2) \<Rightarrow> (Inl e, st\<lparr>world := w2\<rparr>)
      | (Inr c, w2) \<Rightarrow>
     (let st = st\<lparr>world := w2, critique := Some c, trace := trace st @ [(g, c)]\<rparr> in
      if py_in ''<OK>'' c then (Inr Break, st)
      else
      case update_chat_history (generation_history st) c ''user'' of
        (Some e, gh) \<Rightarrow> (Inl e, st\<lparr>generation_history := gh\<rparr>)
      | (None, gh) \<Rightarrow>
     (let st = st\<lparr>generation_history := gh\<rparr> in
      case update_chat_history (reflection_history st) c ''assistant'' of
        (Some e, rh) \<Rightarrow> (Inl e, st\<lparr>reflection_history := rh\<rparr>)
      | (None, rh) \<Rightarrow> (Inr Continue, st\<lparr>reflection_history := rh\<rparr>)))))))"

text \<open>\<^verbatim>\<open>for step in range(n_steps)\<close>, the number of passes left as a natural number.\<close>

fun reflection_loop ::
  "'w ReflectionAgent \<Rightarrow> nat \<Rightarrow> 'w run_state \<Rightarrow> (error + unit) \<times> 'w run_state" where
  "reflection_loop self 0 st = (Inr (), st)"
| "reflection_loop self (Suc k) st =
     (case loop_body self st of
        (Inl e, st') \<Rightarrow> (Inl e, st')
      | (Inr Break, st') \<Rightarrow> (Inr (), st')
      | (Inr Continue, st') \<Rightarrow> reflection_loop self k st')"

text \<open>
  \<^verbatim>\<open>ReflectionAgent.run\<close>. \<^verbatim>\<open>range(n_steps)\<close> is empty for \<open>n_steps \<le> 0\<close>. The final
  \<^verbatim>\<open>return generation\<close> reads a local variable, which raises UnboundLocalError when
  nothing was assigned to it.
\<close>

definition initial_state :: "string \<Rightarrow> string \<Rightarrow> string \<Rightarrow> 'w \<Rightarrow> 'w run_state" where
  "initial_state user_msg generation_system_prompt reflection_system_prompt w =
     (let generation_system_prompt = generation_system_prompt @ BASE_GENERATION_SYSTEM_PROMPT;
          reflection_system_prompt = reflection_system_prompt @ BASE_REFLECTION_SYSTEM_PROMPT
      in \<lparr>generation_history = FixedFirstChatHistory
              (Some [build_prompt_structure generation_system_prompt ''system'' [],
                     build_prompt_structure user_msg ''user'' []]) 3,
          reflection_history = FixedFirstChatHistory
              (Some [build_prompt_structure reflection_system_prompt ''system'' []]) 3,
          generation = None, critique = None, world = w, trace = []\<rparr>)"

definition ReflectionAgent_run ::
  "'w ReflectionAgent \<Rightarrow> string \<Rightarrow> string \<Rightarrow> string \<Rightarrow> int \<Rightarrow> 'w
     \<Rightarrow> (error + string) \<times> 'w run_state" where
  "ReflectionAgent_run self user_msg generation_system_prompt reflection_system_prompt n_steps w =
     (case reflection_loop self (nat n_steps)
             (initial_state user_msg generation_system_prompt reflection_system_prompt w) of
        (Inl e, st) \<Rightarrow> (Inl e, st)
      | (Inr _, st) \<Rightarrow>
          (case generation st of
             None \<Rightarrow> (Inl UnboundLocalError, st)
           | Some g \<Rightarrow> (Inr g, st)))"

text \<open>
  The two histories of a run stay first-entry-protected histories of capacity 3 that are
  not empty, so no append of the loop raises.
\<close>

definition histories_ok :: "'w run_state \<Rightarrow> bool" where
  "histories_ok st \<longleftrightarrow>
     history_class (generation_history st) = FixedFirstChatHistory_class
     \<and> total_length (generation_history st) = 3 \<and> entries (generation_history st) \<noteq> []
     \<and> history_class (reflection_history st) = FixedFirstChatHistory_class
     \<and> total_length (reflection_history st) = 3 \<and> entries (reflection_history st) \<noteq> []"

text \<open>
  Two completion services for examples. Requests alternate between generator and critic,
  starting with the generator, and the state says whose turn it is. The first critic
  approves every draft; the second never does, and each draft of its generator is one
  character longer than the one before.
\<close>

definition approving_client :: "bool client" where
  "approving_client critic ms m = (Inr (if critic then ''Fine. <OK>'' else ''draft''), \<not> critic)"

definition demanding_client :: "(bool \<times> nat) client" where
  "demanding_client w ms m =
     (case w of (critic, k) \<Rightarrow>
        if critic then (Inr ''more'', (False, Suc k))
        else (Inr (replicate (Suc k) (CHR ''*'')), (True, k)))"

section \<open>utils/extraction.py\<close>

text \<open>
  \<^verbatim>\<open>str.strip()\<close>: the characters removed at both ends are those for which
  \<^verbatim>\<open>str.isspace\<close> holds. A \<open>char\<close> stands for a code point below 256; among these the
  white space is U+0009 to U+000D, U+001C to U+0020, U+0085 and U+00A0.
\<close>

definition py_isspace :: "char \<Rightarrow> bool" where
  "py_isspace c =
     (let n = (of_char c :: nat)
      in (9 \<le> n \<and> n \<le> 13) \<or> (28 \<le> n \<and> n \<le> 32) \<or> n = 133 \<or> n = 160)"

definition py_strip :: "string \<Rightarrow> string" where
  "py_strip s = rev (dropWhile py_isspace (rev (dropWhile py_isspace s)))"

text \<open>
  The pattern \<^verbatim>\<open>rf"<{tag}>(.*?)</{tag}>"\<close> puts the tag into a regular expression as it is.
  The fragment of the \<^verbatim>\<open>re\<close> syntax modelled here is: a character without special meaning
  matches itself, and a dot matches any character (\<^verbatim>\<open>re.DOTALL\<close> is set, so a newline
  too). A tag with one of the other special characters gives a pattern outside the
  fragment (\<open>None\<close>): \<^verbatim>\<open>re\<close> may reject it or give it another meaning.
\<close>

datatype atom = Lit char | AnyChar

definition regex_special :: "char list" where
  "regex_special = ''.^$*+?{}[]|()'' @ [CHR 0x5C]"

definition compile_char :: "char \<Rightarrow> atom option" where
  "compile_char c =
     (if c = CHR ''.'' then Some AnyChar
      else if c \<in> set regex_special then None
      else Some (Lit c))"

definition compile_tag :: "string \<Rightarrow> atom list option" where
  "compile_tag tag = those (map compile_char tag)"

fun atom_matches :: "atom \<Rightarrow> char \<Rightarrow> bool" where
  "atom_matches (Lit a) c = (a = c)"
| "atom_matches AnyChar c = True"

text \<open>A sequence of atoms matched at the start of a text leaves the rest of the text.\<close>

fun match_atoms :: "atom list \<Rightarrow> string \<Rightarrow> string option" where
  "match_atoms [] s = Some s"
| "match_atoms (a # as) [] = None"
| "match_atoms (a # as) (c # cs) = (if atom_matches a c then match_atoms as cs else None)"

text \<open>
  The group \<^verbatim>\<open>(.*?)\<close> followed by the closing atoms: the group takes as few characters
  as possible. The result is the group's text and the text after the match.
\<close>

fun lazy_group :: "atom list \<Rightarrow> string \<Rightarrow> (string \<times> string) option" where
  "lazy_group closing [] =
     (case match_atoms closing [] of Some rest \<Rightarrow> Some ([], rest) | None \<Rightarrow> None)"
| "lazy_group closing (c # cs) =
     (case match_atoms closing (c # cs) of
        Some rest \<Rightarrow> Some ([], rest)
      | None \<Rightarrow>
          (case lazy_group closing cs of
             Some (inner, rest) \<Rightarrow> Some (c # inner, rest)
           | None \<Rightarrow> None))"

definition match_here :: "atom list \<Rightarrow> atom list \<Rightarrow> string \<Rightarrow> (string \<times> string) option" where
  "match_here opening closing s =
     (case match_atoms opening s of
        None \<Rightarrow> None
      | Some s' \<Rightarrow> lazy_group closing s')"

text \<open>
  \<^verbatim>\<open>re.findall\<close> scans the text from left to right. At a position where the pattern
  matches, it records the group and goes on at the end of the match (\<open>skip\<close> counts the
  characters still to pass); at any other position it moves one character on. The
  pattern has at least five atoms, so it does not match at the end of the text.
\<close>

fun findall_from :: "atom list \<Rightarrow> atom list \<Rightarrow> nat \<Rightarrow> string \<Rightarrow> string list" where
  "findall_from opening closing skip [] = []"
| "findall_from opening closing (Suc skip) (c # cs) = findall_from opening closing skip cs"
| "findall_from opening closing 0 (c # cs) =
     (case match_here opening closing (c # cs) of
        None \<Rightarrow> findall_from opening closing 0 cs
      | Some (inner, rest) \<Rightarrow>
          inner # findall_from opening closing (length cs - length rest) cs)"

definition re_findall_tag_pattern :: "string \<Rightarrow> string \<Rightarrow> string list option" where
  "re_findall_tag_pattern tag text =
     (case compile_tag tag of
        None \<Rightarrow> None
      | Some t \<Rightarrow>
          Some (findall_from ([Lit CHR ''<''] @ t @ [Lit CHR ''>''])
                             ([Lit CHR ''<'', Lit CHR ''/''] @ t @ [Lit CHR ''>'']) 0 text))"

record TagContentResult =
  tag_content :: "string list"
  found :: bool

definition extract_tag_content :: "string \<Rightarrow> string \<Rightarrow> TagContentResult option" where
  "extract_tag_content text tag =
     (case re_findall_tag_pattern tag text of
        None \<Rightarrow> None
      | Some matched_contents \<Rightarrow>
          Some \<lparr>tag_content = map py_strip matched_contents,
                found = (matched_contents \<noteq> [])\<rparr>)"

text \<open>
  What the specification says of the extractor, for a tag taken literally: the texts
  between \<^verbatim>\<open><tag>\<close> and \<^verbatim>\<open></tag>\<close> of the occurrences in the text, from left to right,
  none overlapping another. An occurrence starts at the first opening tag and ends at
  the first closing tag after it; the next one is looked for behind that closing tag.
\<close>

definition opening_tag :: "string \<Rightarrow> string" where
  "opening_tag tag = ''<'' @ tag @ ''>''"

definition closing_tag :: "string \<Rightarrow> string" where
  "closing_tag tag = ''</'' @ tag @ ''>''"

inductive spec_occurrences :: "string \<Rightarrow> string \<Rightarrow> string list \<Rightarrow> bool" for tag :: string where
  no_occurrence:
    "\<not> (\<exists>pre inner post. text = pre @ opening_tag tag @ inner @ closing_tag tag @ post)
     \<Longrightarrow> spec_occurrences tag text []"
| occurrence:
    "text = pre @ opening_tag tag @ inner @ closing_tag tag @ post
     \<Longrightarrow> \<forall>pre'. prefix (pre' @ opening_tag tag) text \<longrightarrow> length pre \<le> length pre'
     \<Longrightarrow> \<forall>inner'. prefix (inner' @ closing_tag tag) (inner @ closing_tag tag @ post)
            \<longrightarrow> length inner \<le> length inner'
     \<Longrightarrow> spec_occurrences tag post inners
     \<Longrightarrow> spec_occurrences tag text (inner # inners)"

definition tag_literal :: "string \<Rightarrow> bool" where
  "tag_literal tag \<longleftrightarrow> (\<forall>c \<in> set tag. c \<notin> set regex_special)"

section \<open>tool\_pattern/tool.py\<close>

text \<open>
  The Python values that a decoded JSON text is made of. Floating-point numbers are kept
  abstract (\<open>'f\<close>). The keys of a dict are strings, in insertion order.
\<close>

datatype 'f pyval =
    PNone
  | PBool bool
  | PInt int
  | PFloat 'f
  | PStr string
  | PList "'f pyval list"
  | PDict "(string \<times> 'f pyval) list"

text \<open>
  What the Python runtime and its standard library contribute, beyond what is modelled
  here in full: the operations on floating-point numbers, \<^verbatim>\<open>str()\<close> of a value and of
  a dict with arbitrary keys, the equality of dict keys, \<^verbatim>\<open>json.loads\<close> and the limit on the number of digits that \<^verbatim>\<open>int()\<close> accepts
  (\<^verbatim>\<open>sys.get_int_max_str_digits()\<close>, 0 for no limit).
\<close>

record 'f py_runtime =
  float_of_str :: "string \<Rightarrow> error + 'f"
  float_of_int :: "int \<Rightarrow> error + 'f"
  int_of_float :: "'f \<Rightarrow> error + int"
  float_is_zero :: "'f \<Rightarrow> bool"
  py_str :: "'f pyval \<Rightarrow> string"
  py_key_eq :: "'f pyval \<Rightarrow> 'f pyval \<Rightarrow> bool"
  py_str_observations :: "('f pyval \<times> 'f pyval) list \<Rightarrow> string"
  json_loads :: "string \<Rightarrow> error + 'f pyval"
  int_max_str_digits :: nat

text \<open>\<^verbatim>\<open>obj[key]\<close>, \<^verbatim>\<open>obj.get(key)\<close> and \<^verbatim>\<open>obj.items()\<close> for a string \<open>key\<close>.\<close>

fun py_getitem :: "'f pyval \<Rightarrow> string \<Rightarrow> error + 'f pyval" where
  "py_getitem (PDict kvs) key = (case map_of kvs key of None \<Rightarrow> Inl KeyError | Some v \<Rightarrow> Inr v)"
| "py_getitem _ key = Inl TypeError"

fun py_get :: "'f pyval \<Rightarrow> string \<Rightarrow> error + 'f pyval" where
  "py_get (PDict kvs) key = (case map_of kvs key of None \<Rightarrow> Inr PNone | Some v \<Rightarrow> Inr v)"
| "py_get _ key = Inl AttributeError"

fun py_items :: "'f pyval \<Rightarrow> error + (string \<times> 'f pyval) list" where
  "py_items (PDict kvs) = Inr kvs"
| "py_items _ = Inl AttributeError"

text \<open>\<^verbatim>\<open>d[key] = v\<close> on the items of a dict: a key already there keeps its place.\<close>

fun dict_setitem :: "string \<Rightarrow> 'v \<Rightarrow> (string \<times> 'v) list \<Rightarrow> (string \<times> 'v) list" where
  "dict_setitem key v [] = [(key, v)]"
| "dict_setitem key v ((k, x) # kvs) =
     (if k = key then (k, v) # kvs else (k, x) # dict_setitem key v kvs)"

text \<open>
  A function object, as far as \<^verbatim>\<open>get_fn_signature\<close> reads it: \<^verbatim>\<open>__name__\<close>, \<^verbatim>\<open>__doc__\<close>
  and \<^verbatim>\<open>__annotations__\<close>. An annotation is an object with a \<^verbatim>\<open>__name__\<close> (a class such as
  \<^verbatim>\<open>int\<close>) or one without. \<^verbatim>\<open>__annotations__\<close> holds the annotated parameters in the order
  of the \<^verbatim>\<open>def\<close>, then the return annotation under the key \<^verbatim>\<open>return\<close>.
\<close>

datatype annotation = Named string | Unnamed

record py_function =
  f_name :: string
  f_doc :: "string option"
  f_params :: "(string \<times> annotation option) list"
  f_returns :: "annotation option"

definition annotations :: "py_function \<Rightarrow> (string \<times> annotation) list" where
  "annotations fn =
     List.map_filter (\<lambda>(k, a). map_option (Pair k) a) (f_params fn)
     @ (case f_returns fn of None \<Rightarrow> [] | Some a \<Rightarrow> [(''return'', a)])"

text \<open>
  The dict comprehension of \<^verbatim>\<open>get_fn_signature\<close>: the items of \<^verbatim>\<open>__annotations__\<close> in
  order, those with key \<^verbatim>\<open>return\<close> skipped before their value is looked at, each stored
  under its key. Reading \<^verbatim>\<open>__name__\<close> of an object without one raises AttributeError.
\<close>

fun schema_of :: "(string \<times> annotation) list \<Rightarrow> (string \<times> 'f pyval) list
    \<Rightarrow> error + (string \<times> 'f pyval) list" where
  "schema_of [] schema = Inr schema"
| "schema_of ((k, v) # items) schema =
     (if k \<noteq> ''return'' then
        (case v of
           Unnamed \<Rightarrow> Inl AttributeError
         | Named n \<Rightarrow> schema_of items (dict_setitem k (PDict [(''type'', PStr n)]) schema))
      else schema_of items schema)"

definition get_fn_signature :: "py_function \<Rightarrow> error + 'f pyval" where
  "get_fn_signature fn =
     (case schema_of (annotations fn) [] of
        Inl e \<Rightarrow> Inl e
      | Inr schema \<Rightarrow>
          Inr (PDict [(''name'', PStr (f_name fn)),
                      (''description'', (case f_doc fn of None \<Rightarrow> PNone | Some d \<Rightarrow> PStr d)),
                      (''parameters'', PDict [(''properties'', PDict schema)])]))"

text \<open>
  \<^verbatim>\<open>int(s)\<close> for a string. White space around the number is dropped, but not all that
  \<^verbatim>\<open>str.strip\<close> drops: \<^verbatim>\<open>int\<close> first turns each white-space character above U+007F into
  a blank and then skips U+0009 to U+000D and U+0020 at both ends, so of the code points
  below 256 it accepts these, U+0085 and U+00A0, and not U+001C to U+001F. A sign may
  come first, then decimal digits, where single underscores may stand between digits.
  Anything else, or more digits than the runtime's limit, raises ValueError.
\<close>

definition int_isspace :: "char \<Rightarrow> bool" where
  "int_isspace c =
     (let n = (of_char c :: nat)
      in (9 \<le> n \<and> n \<le> 13) \<or> n = 32 \<or> n = 133 \<or> n = 160)"

definition int_strip :: "string \<Rightarrow> string" where
  "int_strip s = rev (dropWhile int_isspace (rev (dropWhile int_isspace s)))"

definition is_digit :: "char \<Rightarrow> bool" where
  "is_digit c = (let n = (of_char c :: nat) in 48 \<le> n \<and> n \<le> 57)"

definition digit_value :: "char \<Rightarrow> int" where
  "digit_value c = int (of_char c) - 48"

fun parse_digits :: "string \<Rightarrow> bool \<Rightarrow> int \<Rightarrow> int option" where
  "parse_digits [] after_digit acc = (if after_digit then Some acc else None)"
| "parse_digits (c # cs) after_digit acc =
     (if is_digit c then parse_digits cs True (acc * 10 + digit_value c)
      else if c = CHR ''_'' \<and> after_digit then parse_digits cs False acc
      else None)"

definition int_of_str :: "'f py_runtime \<Rightarrow> string \<Rightarrow> error + int" where
  "int_of_str rt s =
     (let t = int_strip s;
          (negative, body) = (case t of
              c # cs \<Rightarrow> if c = CHR ''-'' then (True, cs) else if c = CHR ''+'' then (False, cs)
                         else (False, t)
            | [] \<Rightarrow> (False, t))
      in if int_max_str_digits rt \<noteq> 0 \<and> int_max_str_digits rt < length (filter is_digit body)
         then Inl ValueError
         else (case parse_digits body False 0 of
                 None \<Rightarrow> Inl ValueError
               | Some n \<Rightarrow> Inr (if negative then - n else n)))"

text \<open>The four types of \<^verbatim>\<open>type_mapping\<close>, \<^verbatim>\<open>isinstance\<close> and the constructors.\<close>

datatype py_type = T_int | T_str | T_bool | T_float

definition type_mapping :: "(string \<times> py_type) list" where
  "type_mapping = [(''int'', T_int), (''str'', T_str), (''bool'', T_bool), (''float'', T_float)]"

text \<open>
  \<^verbatim>\<open>type_mapping[expected_type]\<close>: the key is whatever \<^verbatim>\<open>.get("type")\<close> gave. A list or a
  dict is not hashable (TypeError), any other value that is not one of the four names is
  a missing key.
\<close>

fun type_mapping_getitem :: "'f pyval \<Rightarrow> error + py_type" where
  "type_mapping_getitem (PStr s) =
     (case map_of type_mapping s of None \<Rightarrow> Inl KeyError | Some t \<Rightarrow> Inr t)"
| "type_mapping_getitem (PList _) = Inl TypeError"
| "type_mapping_getitem (PDict _) = Inl TypeError"
| "type_mapping_getitem _ = Inl KeyError"

text \<open>\<^verbatim>\<open>bool\<close> is a subclass of \<^verbatim>\<open>int\<close>, so a boolean is an instance of \<^verbatim>\<open>int\<close>.\<close>

fun py_isinstance :: "'f pyval \<Rightarrow> py_type \<Rightarrow> bool" where
  "py_isinstance (PInt _) T_int = True"
| "py_isinstance (PBool _) T_int = True"
| "py_isinstance (PStr _) T_str = True"
| "py_isinstance (PBool _) T_bool = True"
| "py_isinstance (PFloat _) T_float = True"
| "py_isinstance _ _ = False"

fun truthy :: "'f py_runtime \<Rightarrow> 'f pyval \<Rightarrow> bool" where
  "truthy rt PNone = False"
| "truthy rt (PBool b) = b"
| "truthy rt (PInt n) = (n \<noteq> 0)"
| "truthy rt (PFloat x) = (\<not> float_is_zero rt x)"
| "truthy rt (PStr s) = (s \<noteq> [])"
| "truthy rt (PList xs) = (xs \<noteq> [])"
| "truthy rt (PDict kvs) = (kvs \<noteq> [])"

fun construct :: "'f py_runtime \<Rightarrow> py_type \<Rightarrow> 'f pyval \<Rightarrow> error + 'f pyval" where
  "construct rt T_int (PStr s) = map_sum id PInt (int_of_str rt s)"
| "construct rt T_int (PFloat x) = map_sum id PInt (int_of_float rt x)"
| "construct rt T_int (PInt n) = Inr (PInt n)"
| "construct rt T_int (PBool b) = Inr (PInt (if b then 1 else 0))"
| "construct rt T_int _ = Inl TypeError"
| "construct rt T_str v = Inr (PStr (py_str rt v))"
| "construct rt T_bool v = Inr (PBool (truthy rt v))"
| "construct rt T_float (PStr s) = map_sum id PFloat (float_of_str rt s)"
| "construct rt T_float (PInt n) = map_sum id PFloat (float_of_int rt n)"
| "construct rt T_float (PBool b) = map_sum id PFloat (float_of_int rt (if b then 1 else 0))"
| "construct rt T_float (PFloat x) = Inr (PFloat x)"
| "construct rt T_float _ = Inl TypeError"

text \<open>
  The loop of \<^verbatim>\<open>validate_arguments\<close> over \<^verbatim>\<open>tool_call["arguments"].items()\<close>. The dict
  iterated is the one assigned to: \<open>arguments\<close> is its current content. An assignment
  replaces the value of the key just visited, so the items still to come are unchanged.
\<close>

fun validate_loop :: "'f py_runtime \<Rightarrow> 'f pyval \<Rightarrow> (string \<times> 'f pyval) list
    \<Rightarrow> (string \<times> 'f pyval) list \<Rightarrow> error + (string \<times> 'f pyval) list" where
  "validate_loop rt properties [] arguments = Inr arguments"
| "validate_loop rt properties ((arg_name, arg_value) # items) arguments =
     (case py_getitem properties arg_name of
        Inl e \<Rightarrow> Inl e
      | Inr property \<Rightarrow>
     (case py_get property ''type'' of
        Inl e \<Rightarrow> Inl e
      | Inr expected_type \<Rightarrow>
     (case type_mapping_getitem expected_type of
        Inl e \<Rightarrow> Inl e
      | Inr ty \<Rightarrow>
          if \<not> py_isinstance arg_value ty then
            (case construct rt ty arg_value of
               Inl e \<Rightarrow> Inl e
             | Inr v \<Rightarrow> validate_loop rt properties items (dict_setitem arg_name v arguments))
          else validate_loop rt properties items arguments)))"

text \<open>\<^verbatim>\<open>d[key] = v\<close> on a value: only a dict takes it.\<close>

fun py_setitem :: "'f pyval \<Rightarrow> string \<Rightarrow> 'f pyval \<Rightarrow> error + 'f pyval" where
  "py_setitem (PDict kvs) key v = Inr (PDict (dict_setitem key v kvs))"
| "py_setitem _ key v = Inl TypeError"

definition validate_arguments :: "'f py_runtime \<Rightarrow> 'f pyval \<Rightarrow> 'f pyval \<Rightarrow> error + 'f pyval" where
  "validate_arguments rt tool_call tool_signature =
     (case py_getitem tool_signature ''parameters'' of
        Inl e \<Rightarrow> Inl e
      | Inr parameters \<Rightarrow>
     (case py_getitem parameters ''properties'' of
        Inl e \<Rightarrow> Inl e
      | Inr properties \<Rightarrow>
     (case py_getitem tool_call ''arguments'' of
        Inl e \<Rightarrow> Inl e
      | Inr arguments \<Rightarrow>
     (case py_items arguments of
        Inl e \<Rightarrow> Inl e
      | Inr items \<Rightarrow>
     (case validate_loop rt properties items items of
        Inl e \<Rightarrow> Inl e
      | Inr arguments' \<Rightarrow> py_setitem tool_call ''arguments'' (PDict arguments'))))))"

text \<open>
  What one pass of the loop of \<^verbatim>\<open>validate_arguments\<close> computes for an argument, apart
  from storing it: the value the argument has afterwards, or the exception raised. And
  what all passes over a list of items compute, the first exception ending them.
\<close>

definition coerce_argument :: "'f py_runtime \<Rightarrow> 'f pyval \<Rightarrow> string \<Rightarrow> 'f pyval
    \<Rightarrow> error + 'f pyval" where
  "coerce_argument rt properties arg_name arg_value =
     (case py_getitem properties arg_name of
        Inl e \<Rightarrow> Inl e
      | Inr property \<Rightarrow>
     (case py_get property ''type'' of
        Inl e \<Rightarrow> Inl e
      | Inr expected_type \<Rightarrow>
     (case type_mapping_getitem expected_type of
        Inl e \<Rightarrow> Inl e
      | Inr ty \<Rightarrow>
          if \<not> py_isinstance arg_value ty then construct rt ty arg_value
          else Inr arg_value)))"

fun coerce_all :: "'f py_runtime \<Rightarrow> 'f pyval \<Rightarrow> (string \<times> 'f pyval) list
    \<Rightarrow> error + (string \<times> 'f pyval) list" where
  "coerce_all rt properties [] = Inr []"
| "coerce_all rt properties ((arg_name, arg_value) # items) =
     (case coerce_argument rt properties arg_name arg_value of
        Inl e \<Rightarrow> Inl e
      | Inr v \<Rightarrow>
          (case coerce_all rt properties items of
             Inl e \<Rightarrow> Inl e
           | Inr items' \<Rightarrow> Inr ((arg_name, v) # items')))"

text \<open>
  The type that a schema declares for a parameter, as the loop of \<^verbatim>\<open>validate_arguments\<close>
  reads it: \<^verbatim>\<open>type_mapping[properties[arg_name].get("type")]\<close>, \<open>None\<close> when one of the
  lookups raises.
\<close>

definition declared_type :: "(string \<times> 'f pyval) list \<Rightarrow> string \<Rightarrow> py_type option" where
  "declared_type properties arg_name =
     (case py_getitem (PDict properties) arg_name of
        Inl _ \<Rightarrow> None
      | Inr property \<Rightarrow>
          (case py_get property ''type'' of
             Inl _ \<Rightarrow> None
           | Inr expected_type \<Rightarrow>
               (case type_mapping_getitem expected_type of
                  Inl _ \<Rightarrow> None
                | Inr ty \<Rightarrow> Some ty)))"

text \<open>A runtime for examples: no floating-point numbers, the usual limit on digits.\<close>

definition example_runtime :: "unit py_runtime" where
  "example_runtime =
     \<lparr>float_of_str = (\<lambda>_. Inl ValueError), float_of_int = (\<lambda>_. Inr ()),
      int_of_float = (\<lambda>_. Inr 0), float_is_zero = (\<lambda>_. True), py_str = (\<lambda>_. ''''),
      py_key_eq = (=), py_str_observations = (\<lambda>_. []), json_loads = (\<lambda>_. Inl JSONDecodeError), int_max_str_digits = 4300\<rparr>"

text \<open>
  What the specification says of the schema's parameters: the entry that a declared
  parameter yields, its name mapped to the name of its annotation. A parameter without
  annotation yields none.
\<close>

fun schema_entry :: "string \<times> annotation option \<Rightarrow> (string \<times> 'f pyval) option" where
  "schema_entry (k, Some (Named n)) = Some (k, PDict [(''type'', PStr n)])"
| "schema_entry (k, _) = None"

section \<open>tool\_pattern/tool\_agent.py\<close>

definition TOOL_SYSTEM_PROMPT :: string where
  "TOOL_SYSTEM_PROMPT =
     ''\<newline>You are a function calling AI model. You are provided with function signatures within <tools></tools> XML tags.\<newline>'' @
     ''You may call one or more functions to assist with the user query. Don't make assumptions about what values to plug\<newline>'' @
     ''into functions. Pay special attention to the properties 'types'. You should use those types as in a Python dict.\<newline>'' @
     ''For each function call return a json object with function name and arguments within <tool_call></tool_call>\<newline>'' @
     ''XML tags as follows:\<newline>'' @
     ''\<newline>'' @
     ''<tool_call>\<newline>'' @
     ''{\"name\": <function-name>, \"arguments\": <args-dict>, \"id\": <monotonically-increasing-id>}\<newline>'' @
     ''</tool_call>\<newline>'' @
     ''\<newline>'' @
     ''Here are the available tools:\<newline>'' @
     ''\<newline>'' @
     ''<tools>\<newline>'' @
     ''%s\<newline>'' @
     ''</tools>\<newline>''"

text \<open>
  \<^verbatim>\<open>template % arg\<close> for a template with one conversion \<^verbatim>\<open>%s\<close> and no other percent
  sign, as \<open>TOOL_SYSTEM_PROMPT\<close> is, and a string \<open>arg\<close>: the conversion is replaced by
  the string.
\<close>

fun percent_format :: "string \<Rightarrow> string \<Rightarrow> string" where
  "percent_format [] arg = []"
| "percent_format (c # cs) arg =
     (if prefix ''%s'' (c # cs) then arg @ drop 1 cs else c # percent_format cs arg)"

text \<open>
  A \<^verbatim>\<open>Tool\<close> wraps a function, which takes keyword arguments, may change the world and
  returns a value or raises. \<^verbatim>\<open>Tool.run(**kwargs)\<close> calls it.
\<close>

record ('f, 'w) Tool =
  name :: string
  fn :: "(string \<times> 'f pyval) list \<Rightarrow> 'w \<Rightarrow> (error + 'f pyval) \<times> 'w"
  fn_signature :: string

definition Tool_run ::
  "('f, 'w) Tool \<Rightarrow> (string \<times> 'f pyval) list \<Rightarrow> 'w \<Rightarrow> (error + 'f pyval) \<times> 'w" where
  "Tool_run self kwargs w = fn self kwargs w"

text \<open>
  \<^verbatim>\<open>ToolAgent.__init__\<close>, for a list of tools. In \<^verbatim>\<open>tools_dict\<close> a later tool replaces an
  earlier one of the same name.
\<close>

record ('f, 'w) ToolAgent = "'w agent" +
  tools :: "('f, 'w) Tool list"
  tools_dict :: "string \<rightharpoonup> ('f, 'w) Tool"

definition ToolAgent_init ::
  "'w client \<Rightarrow> ('f, 'w) Tool list \<Rightarrow> string \<Rightarrow> ('f, 'w) ToolAgent" where
  "ToolAgent_init c ts m =
     \<lparr>client = c, model = m, tools = ts,
      tools_dict = map_of (rev (map (\<lambda>tool. (name tool, tool)) ts))\<rparr>"

definition add_tool_signatures :: "('f, 'w) ToolAgent \<Rightarrow> string" where
  "add_tool_signatures self = concat (map fn_signature (tools self))"

text \<open>
  The \<^verbatim>\<open>observations\<close> dict is keyed by the \<^verbatim>\<open>id\<close> of each call, which is any decoded
  value: a list or a dict is not hashable (TypeError), and two keys are the same key when
  the runtime finds them equal.
\<close>

fun observations_setitem :: "'f py_runtime \<Rightarrow> 'f pyval \<Rightarrow> 'f pyval
    \<Rightarrow> ('f pyval \<times> 'f pyval) list \<Rightarrow> ('f pyval \<times> 'f pyval) list" where
  "observations_setitem rt key v [] = [(key, v)]"
| "observations_setitem rt key v ((k, x) # kvs) =
     (if py_key_eq rt k key then (k, v) # kvs else (k, x) # observations_setitem rt key v kvs)"

fun hashable :: "'f pyval \<Rightarrow> bool" where
  "hashable (PList _) = False"
| "hashable (PDict _) = False"
| "hashable _ = True"

text \<open>\<^verbatim>\<open>self.tools_dict[tool_name]\<close> for whatever value the call holds under \<^verbatim>\<open>name\<close>.\<close>

fun tools_dict_getitem :: "('f, 'w) ToolAgent \<Rightarrow> 'f pyval \<Rightarrow> error + ('f, 'w) Tool" where
  "tools_dict_getitem self (PStr n) =
     (case tools_dict self n of None \<Rightarrow> Inl KeyError | Some tool \<Rightarrow> Inr tool)"
| "tools_dict_getitem self (PList _) = Inl TypeError"
| "tools_dict_getitem self (PDict _) = Inl TypeError"
| "tools_dict_getitem self _ = Inl KeyError"

text \<open>
  The state that a run of the tool agent threads through: the world (the completion
  service and whatever the tools act on) and, not a variable of the source, the list of
  the tool invocations made so far, each with the tool's name and its keyword arguments.
\<close>

type_synonym ('f, 'w) tool_world = "'w \<times> (string \<times> (string \<times> 'f pyval) list) list"

text \<open>One pass through the loop of \<^verbatim>\<open>process_tool_calls\<close>.\<close>

definition process_tool_call :: "'f py_runtime \<Rightarrow> ('f, 'w) ToolAgent \<Rightarrow> string
    \<Rightarrow> ('f pyval \<times> 'f pyval) list \<Rightarrow> ('f, 'w) tool_world
    \<Rightarrow> (error + ('f pyval \<times> 'f pyval) list) \<times> ('f, 'w) tool_world" where
  "process_tool_call rt self tool_call_str observations st =
     (case json_loads rt tool_call_str of
        Inl e \<Rightarrow> (Inl e, st)
      | Inr tool_call \<Rightarrow>
     (case py_getitem tool_call ''name'' of
        Inl e \<Rightarrow> (Inl e, st)
      | Inr tool_name \<Rightarrow>
     (case tools_dict_getitem self tool_name of
        Inl e \<Rightarrow> (Inl e, st)
      | Inr tool \<Rightarrow>
     (case json_loads rt (fn_signature tool) of
        Inl e \<Rightarrow> (Inl e, st)
      | Inr tool_signature \<Rightarrow>
     (case validate_arguments rt tool_call tool_signature of
        Inl e \<Rightarrow> (Inl e, st)
      | Inr validated_tool_call \<Rightarrow>
     (case py_getitem validated_tool_call ''arguments'' of
        Inl e \<Rightarrow> (Inl e, st)
      | Inr arguments \<Rightarrow>
     (case py_items arguments of
        Inl e \<Rightarrow> (Inl TypeError, st)
      | Inr kwargs \<Rightarrow>
     (case Tool_run tool kwargs (fst st) of
        (Inl e, w) \<Rightarrow> (Inl e, (w, snd st @ [(name tool, kwargs)]))
      | (Inr result, w) \<Rightarrow>
     (let st = (w, snd st @ [(name tool, kwargs)]) in
      case py_getitem validated_tool_call ''id'' of
        Inl e \<Rightarrow> (Inl e, st)
      | Inr call_id \<Rightarrow>
          if hashable call_id
          then (Inr (observations_setitem rt call_id result observations), st)
          else (Inl TypeError, st))))))))))"

fun process_tool_calls_loop :: "'f py_runtime \<Rightarrow> ('f, 'w) ToolAgent \<Rightarrow> string list
    \<Rightarrow> ('f pyval \<times> 'f pyval) list \<Rightarrow> ('f, 'w) tool_world
    \<Rightarrow> (error + ('f pyval \<times> 'f pyval) list) \<times> ('f, 'w) tool_world" where
  "process_tool_calls_loop rt self [] observations st = (Inr observations, st)"
| "process_tool_calls_loop rt self (tool_call_str # rest) observations st =
     (case process_tool_call rt self tool_call_str observations st of
        (Inl e, st') \<Rightarrow> (Inl e, st')
      | (Inr observations', st') \<Rightarrow> process_tool_calls_loop rt self rest observations' st')"

definition process_tool_calls :: "'f py_runtime \<Rightarrow> ('f, 'w) ToolAgent \<Rightarrow> string list
    \<Rightarrow> ('f, 'w) tool_world
    \<Rightarrow> (error + ('f pyval \<times> 'f pyval) list) \<times> ('f, 'w) tool_world" where
  "process_tool_calls rt self tool_calls_content st =
     process_tool_calls_loop rt self tool_calls_content [] st"

text \<open>
  The two histories that \<^verbatim>\<open>ToolAgent.run\<close> builds before its first request. Both are
  plain histories with the default capacity \<open>-1\<close>.
\<close>

definition tool_chat_history :: "('f, 'w) ToolAgent \<Rightarrow> string \<Rightarrow> message history" where
  "tool_chat_history self user_msg =
     ChatHistory
       (Some [build_prompt_structure
                (percent_format TOOL_SYSTEM_PROMPT (add_tool_signatures self)) ''system'' [],
              build_prompt_structure user_msg ''user'' []])
       (- 1)"

definition agent_chat_history :: "string \<Rightarrow> message history" where
  "agent_chat_history user_msg =
     ChatHistory (Some [build_prompt_structure user_msg ''user'' []]) (- 1)"

text \<open>
  \<^verbatim>\<open>ToolAgent.run\<close>. The tag \<^verbatim>\<open>tool_call\<close> has no character that is special in a regular
  expression, so the pattern is always inside the modelled fragment and the branch for
  \<open>None\<close> is never taken.
\<close>

definition ToolAgent_run :: "'f py_runtime \<Rightarrow> ('f, 'w) ToolAgent \<Rightarrow> string
    \<Rightarrow> ('f, 'w) tool_world \<Rightarrow> (error + string) \<times> ('f, 'w) tool_world" where
  "ToolAgent_run rt self user_msg st =
     (case completions_create (client self) (entries (tool_chat_history self user_msg))
             (model self) (fst st) of
        (Inl e, w) \<Rightarrow> (Inl e, (w, snd st))
      | (Inr tool_call_response, w) \<Rightarrow>
     (let st = (w, snd st) in
      case extract_tag_content tool_call_response ''tool_call'' of
        None \<Rightarrow> (Inl ReError, st)
      | Some tool_calls \<Rightarrow>
          if found tool_calls then
            (case process_tool_calls rt self (tag_content tool_calls) st of
               (Inl e, st) \<Rightarrow> (Inl e, st)
             | (Inr observations, st) \<Rightarrow>
            (case update_chat_history (agent_chat_history user_msg)
                    (''Observation: '' @ py_str_observations rt observations) ''user'' of
               (Some e, h) \<Rightarrow> (Inl e, st)
             | (None, h) \<Rightarrow>
            (case completions_create (client self) (entries h) (model self) (fst st) of
               (r, w) \<Rightarrow> (r, (w, snd st)))))
          else
            (case completions_create (client self) (entries (agent_chat_history user_msg))
                    (model self) (fst st) of
               (r, w) \<Rightarrow> (r, (w, snd st)))))"

text \<open>
  A completion service for examples: its state says whether it was asked before, and its
  second answer differs from its first.
\<close>

definition two_answers_client :: "bool client" where
  "two_answers_client asked ms m = (Inr (if asked then ''second answer'' else ''first answer''), True)"

section \<open>Properties of the chat histories\<close>


lemma py_pop_0_Cons: "py_pop 0 (x # xs) = (Inr x, xs)"
  by (simp add: py_pop_def)

lemma py_pop_0_Nil: "py_pop 0 [] = (Inl IndexError, [])"
  by (simp add: py_pop_def)

lemma py_pop_1_Cons2: "py_pop 1 (x # y # xs) = (Inr y, x # xs)"
  by (simp add: py_pop_def)

lemma py_pop_1_short: "length xs \<le> 1 \<Longrightarrow> py_pop 1 xs = (Inl IndexError, xs)"
  by (simp add: py_pop_def)

lemma FixedFirst_append_at_capacity:
  assumes "int (length (entries h)) = total_length h" and "2 \<le> total_length h"
  shows "FixedFirstChatHistory_append m h =
           (None, h\<lparr>entries := hd (entries h) # drop 2 (entries h) @ [m]\<rparr>)"
proof -
  from assms obtain x y xs where e: "entries h = x # y # xs"
    by (cases "entries h"; cases "tl (entries h)") auto
  with assms show ?thesis
    by (simp add: FixedFirstChatHistory_append_def py_pop_1_Cons2)
qed

lemma FixedFirst_append_below:
  assumes "int (length (entries h)) \<noteq> total_length h"
  shows "FixedFirstChatHistory_append m h = (None, h\<lparr>entries := entries h @ [m]\<rparr>)"
  using assms by (simp add: FixedFirstChatHistory_append_def)

lemma FixedFirst_step:
  assumes "history_class h = FixedFirstChatHistory_class" "2 \<le> total_length h" "entries h \<noteq> []"
  shows "\<exists>h'. history_append m h = (None, h') \<and> history_class h' = FixedFirstChatHistory_class
            \<and> total_length h' = total_length h \<and> entries h' \<noteq> []
            \<and> hd (entries h') = hd (entries h)"
proof (cases "int (length (entries h)) = total_length h")
  case True
  with assms show ?thesis
    by (simp add: history_append_def FixedFirst_append_at_capacity)
next
  case False
  with assms show ?thesis
    by (simp add: history_append_def FixedFirst_append_below)
qed

lemma FixedFirst_appends:
  assumes "history_class h = FixedFirstChatHistory_class" "2 \<le> total_length h" "entries h \<noteq> []"
  shows "\<exists>h'. appends ms h = (None, h') \<and> history_class h' = FixedFirstChatHistory_class
            \<and> total_length h' = total_length h \<and> entries h' \<noteq> []
            \<and> hd (entries h') = hd (entries h)"
  using assms
proof (induction ms arbitrary: h)
  case Nil
  then show ?case by simp
next
  case (Cons m ms)
  from FixedFirst_step [OF Cons.prems, of m] obtain h1 where
    s: "history_append m h = (None, h1)" "history_class h1 = FixedFirstChatHistory_class"
       "total_length h1 = total_length h" "entries h1 \<noteq> []" "hd (entries h1) = hd (entries h)"
    by blast
  from Cons.IH [of h1] s Cons.prems show ?case by simp
qed

text \<open>
  Claim C2. A first-entry-protected history built with capacity \<open>N \<ge> 2\<close> from a non-empty
  message list: every sequence of appends returns without raising, and the entry at
  position 0 afterwards is the first entry of the seed. At capacity the entry removed is
  the one at index 1: the new contents are the old first entry, the old entries from
  index 2 on, and the new message.
\<close>

theorem FixedFirstChatHistory_keeps_first:
  assumes "2 \<le> N" and "seed \<noteq> []"
  shows "(\<exists>h. appends ms (FixedFirstChatHistory (Some seed) N) = (None, h)
            \<and> entries h \<noteq> [] \<and> entries h ! 0 = seed ! 0)
       \<and> (int (length seed) = N \<longrightarrow>
            FixedFirstChatHistory_append m (FixedFirstChatHistory (Some seed) N)
              = (None, FixedFirstChatHistory (Some (seed ! 0 # drop 2 seed @ [m])) N))"
proof -
  let ?init = "FixedFirstChatHistory (Some seed) N"
  have "history_class ?init = FixedFirstChatHistory_class" "2 \<le> total_length ?init" "entries ?init \<noteq> []"
    using assms by (simp_all add: FixedFirstChatHistory_def ChatHistory_def)
  from FixedFirst_appends [OF this, of ms] obtain h where
    h: "appends ms ?init = (None, h)" "entries h \<noteq> []" "hd (entries h) = hd (entries ?init)"
    by blast
  moreover have "entries ?init = seed" by (simp add: FixedFirstChatHistory_def ChatHistory_def)
  ultimately have a: "\<exists>h. appends ms ?init = (None, h) \<and> entries h \<noteq> [] \<and> entries h ! 0 = seed ! 0"
    using assms by (auto simp: hd_conv_nth)
  have b: "FixedFirstChatHistory_append m ?init
              = (None, FixedFirstChatHistory (Some (seed ! 0 # drop 2 seed @ [m])) N)"
    if "int (length seed) = N"
  proof -
    have "int (length (entries ?init)) = total_length ?init"
      using that by (simp add: FixedFirstChatHistory_def ChatHistory_def)
    from FixedFirst_append_at_capacity [OF this \<open>2 \<le> total_length ?init\<close>, of m] assms
    show ?thesis by (simp add: FixedFirstChatHistory_def ChatHistory_def hd_conv_nth)
  qed
  from a b show ?thesis by blast
qed

theorem FixedFirstChatHistory_keeps_first_witness:
  "(2::int) \<le> 3 \<and> [''s'', ''u'', ''a''] \<noteq> []
   \<and> (\<exists>h. appends [''c'', ''d''] (FixedFirstChatHistory (Some [''s'', ''u'', ''a'']) 3) = (None, h)
          \<and> entries h \<noteq> [] \<and> entries h ! 0 = ''s'')
   \<and> FixedFirstChatHistory_append ''c'' (FixedFirstChatHistory (Some [''s'', ''u'', ''a'']) 3)
        = (None, FixedFirstChatHistory (Some [''s'', ''a'', ''c'']) 3)"
  using FixedFirstChatHistory_keeps_first [of 3 "[''s'', ''u'', ''a'']" "[''c'', ''d'']" "''c''"]
  by simp

text \<open>
  Claim C8. A first-entry-protected history whose capacity is at most 1 and that is at
  capacity (it holds as many entries as its capacity): \<^verbatim>\<open>append\<close> raises IndexError from
  the removal at index 1, the new message is not appended, and the container is left
  exactly as it was.
\<close>

theorem FixedFirstChatHistory_capacity_le_1_raises:
  assumes "total_length h \<le> 1" and "int (length (entries h)) = total_length h"
  shows "FixedFirstChatHistory_append m h = (Some IndexError, h)"
proof -
  from assms have "length (entries h) \<le> 1" by simp
  then have "py_pop 1 (entries h) = (Inl IndexError, entries h)" by (rule py_pop_1_short)
  with assms show ?thesis by (simp add: FixedFirstChatHistory_append_def)
qed

theorem FixedFirstChatHistory_capacity_le_1_raises_witness:
  "FixedFirstChatHistory_append ''new'' (FixedFirstChatHistory (Some [''system'']) 1)
     = (Some IndexError, FixedFirstChatHistory (Some [''system'']) 1)
   \<and> entries (FixedFirstChatHistory (Some [''system'']) 1) = [''system'']"
  using FixedFirstChatHistory_capacity_le_1_raises
          [of "FixedFirstChatHistory (Some [''system'']) 1" "''new''"]
  by (simp add: FixedFirstChatHistory_def ChatHistory_def)

lemma Plain_step:
  assumes "history_class h = ChatHistory_class" "1 \<le> total_length h"
    "int (length (entries h)) \<le> total_length h"
  shows "history_append m h =
     (None, h\<lparr>entries := drop (Suc (length (entries h)) - nat (total_length h)) (entries h @ [m])\<rparr>)"
proof (cases "int (length (entries h)) = total_length h")
  case True
  with assms obtain x xs where e: "entries h = x # xs" by (cases "entries h") auto
  with True assms show ?thesis
    by (simp add: history_append_def ChatHistory_append_def py_pop_0_Cons Suc_diff_le)
next
  case False
  with assms have "Suc (length (entries h)) - nat (total_length h) = 0" by simp
  with False assms show ?thesis
    by (simp add: history_append_def ChatHistory_append_def)
qed

lemma drop_window_step:
  assumes "1 \<le> N" "int (length xs) \<le> N"
  shows "drop (length (drop (Suc (length xs) - nat N) (xs @ [m])) + length ms - nat N)
              (drop (Suc (length xs) - nat N) (xs @ [m]) @ ms)
         = drop (length xs + length (m # ms) - nat N) (xs @ m # ms)"
proof (cases "int (length xs) = N")
  case True
  then have n: "nat N = length xs" by simp
  from True assms obtain x xs' where e: "xs = x # xs'" by (cases xs) auto
  show ?thesis unfolding n by (simp add: e)
next
  case False
  with assms have "Suc (length xs) - nat N = 0" by simp
  then show ?thesis by simp
qed

lemma Plain_appends:
  assumes "history_class h = ChatHistory_class" "1 \<le> total_length h"
    "int (length (entries h)) \<le> total_length h"
  shows "appends ms h =
     (None, h\<lparr>entries := drop (length (entries h) + length ms - nat (total_length h)) (entries h @ ms)\<rparr>)"
  using assms
proof (induction ms arbitrary: h)
  case Nil
  then show ?case by simp
next
  case (Cons m ms)
  let ?next = "h\<lparr>entries := drop (Suc (length (entries h)) - nat (total_length h)) (entries h @ [m])\<rparr>"
  have s: "history_append m h = (None, ?next)" by (rule Plain_step [OF Cons.prems])
  have p: "history_class ?next = ChatHistory_class" "1 \<le> total_length ?next"
    "int (length (entries ?next)) \<le> total_length ?next"
    using Cons.prems by auto
  have "appends (m # ms) h = appends ms ?next" using s by simp
  also have "\<dots> = (None, ?next\<lparr>entries := drop (length (entries ?next) + length ms - nat (total_length ?next)) (entries ?next @ ms)\<rparr>)"
    by (rule Cons.IH [OF p])
  also have "drop (length (entries ?next) + length ms - nat (total_length ?next)) (entries ?next @ ms)
      = drop (length (entries h) + length (m # ms) - nat (total_length h)) (entries h @ m # ms)"
  proof -
    have e1: "entries ?next = drop (Suc (length (entries h)) - nat (total_length h)) (entries h @ [m])"
      and t1: "total_length ?next = total_length h" by simp_all
    show ?thesis unfolding e1 t1 by (rule drop_window_step [OF Cons.prems(2,3)])
  qed
  finally show ?case by simp
qed

lemma Plain_unbounded_step:
  assumes "history_class h = ChatHistory_class" "total_length h < 0"
  shows "history_append m h = (None, h\<lparr>entries := entries h @ [m]\<rparr>)"
  using assms by (simp add: history_append_def ChatHistory_append_def)

lemma Plain_unbounded_appends:
  assumes "history_class h = ChatHistory_class" "total_length h < 0"
  shows "appends ms h = (None, h\<lparr>entries := entries h @ ms\<rparr>)"
  using assms
proof (induction ms arbitrary: h)
  case Nil
  then show ?case by simp
next
  case (Cons m ms)
  then show ?case by (simp add: Plain_unbounded_step)
qed


text \<open>
  Claim C3, as amended. A plain bounded history with capacity \<open>N \<ge> 1\<close>, seeded with at most
  \<open>N\<close> entries: every sequence of appends returns without raising, the length never
  exceeds \<open>N\<close>, the contents are the last \<open>N\<close> of the seed followed by the appended
  messages, and once at least \<open>N\<close> messages were appended they are exactly the most recent
  \<open>N\<close> appended, in order. With a negative capacity (\<open>-1\<close>, the default) no append evicts.
\<close>

theorem ChatHistory_fifo_window:
  "(1 \<le> N \<and> int (length seed) \<le> N \<longrightarrow>
      (\<exists>h. appends ms (ChatHistory (Some seed) N) = (None, h)
          \<and> int (length (entries h)) \<le> N
          \<and> entries h = drop (length (seed @ ms) - nat N) (seed @ ms)
          \<and> (nat N \<le> length ms \<longrightarrow> entries h = drop (length ms - nat N) ms)))
   \<and> (N < 0 \<longrightarrow>
      appends ms (ChatHistory (Some seed) N) = (None, ChatHistory (Some (seed @ ms)) N))"
proof (intro conjI impI)
  let ?init = "ChatHistory (Some seed) N"
  assume a: "1 \<le> N \<and> int (length seed) \<le> N"
  then have p: "history_class ?init = ChatHistory_class" "1 \<le> total_length ?init"
    "int (length (entries ?init)) \<le> total_length ?init"
    by (simp_all add: ChatHistory_def)
  let ?h = "?init\<lparr>entries := drop (length (entries ?init) + length ms - nat (total_length ?init)) (entries ?init @ ms)\<rparr>"
  have r: "appends ms ?init = (None, ?h)" by (rule Plain_appends [OF p])
  have e: "entries ?h = drop (length (seed @ ms) - nat N) (seed @ ms)"
    by (simp add: ChatHistory_def)
  have "length (drop (length (seed @ ms) - nat N) (seed @ ms)) \<le> nat N"
    by simp
  then have l: "int (length (entries ?h)) \<le> N" unfolding e using a by linarith
  have w: "entries ?h = drop (length ms - nat N) ms" if "nat N \<le> length ms"
    unfolding e using that by simp
  from r e l w show "\<exists>h. appends ms ?init = (None, h) \<and> int (length (entries h)) \<le> N
          \<and> entries h = drop (length (seed @ ms) - nat N) (seed @ ms)
          \<and> (nat N \<le> length ms \<longrightarrow> entries h = drop (length ms - nat N) ms)"
    by blast
next
  let ?init = "ChatHistory (Some seed) N"
  assume "N < 0"
  then have "history_class ?init = ChatHistory_class" "total_length ?init < 0"
    by (simp_all add: ChatHistory_def)
  from Plain_unbounded_appends [OF this, of ms]
  show "appends ms ?init = (None, ChatHistory (Some (seed @ ms)) N)"
    by (simp add: ChatHistory_def)
qed

theorem ChatHistory_fifo_window_witness:
  "(\<exists>h. appends [''a'', ''b'', ''c''] (ChatHistory (Some []) 2) = (None, h)
        \<and> int (length (entries h)) \<le> 2 \<and> entries h = [''b'', ''c''])
   \<and> appends [''a'', ''b'', ''c''] (ChatHistory (Some [''s'']) (- 1))
        = (None, ChatHistory (Some [''s'', ''a'', ''b'', ''c'']) (- 1))"
  using ChatHistory_fifo_window [of 2 "[]" "[''a'', ''b'', ''c'']"]
        ChatHistory_fifo_window [of "- 1" "[''s'']" "[''a'', ''b'', ''c'']"]
  by simp

text \<open>
  Claim C3 as the specification states it fails at capacity 0. On an empty container the
  first append raises IndexError (the removal at index 0 finds nothing); on a container
  seeded with one entry the length is never equal to the capacity, so nothing is evicted
  and the length exceeds the capacity.
\<close>

theorem ChatHistory_capacity_0_counterexample:
  "appends [''a''] (ChatHistory None 0) = (Some IndexError, ChatHistory None 0)
   \<and> appends [''a''] (ChatHistory (Some [''s'']) 0) = (None, ChatHistory (Some [''s'', ''a'']) 0)"
  by (simp add: history_append_def ChatHistory_append_def ChatHistory_def py_pop_def)

section \<open>Properties of the reflection loop\<close>

lemma histories_ok_initial: "histories_ok (initial_state user_msg gsp rsp w)"
  by (simp add: histories_ok_def initial_state_def FixedFirstChatHistory_def ChatHistory_def)

lemma update_chat_history_ok:
  assumes "history_class h = FixedFirstChatHistory_class" "total_length h = 3" "entries h \<noteq> []"
  shows "\<exists>h'. update_chat_history h msg r = (None, h')
            \<and> history_class h' = FixedFirstChatHistory_class
            \<and> total_length h' = 3 \<and> entries h' \<noteq> []"
proof -
  from assms have "2 \<le> total_length h" by simp
  from FixedFirst_step [OF assms(1) this assms(3), of "build_prompt_structure msg r []"] assms
  show ?thesis by (auto simp: update_chat_history_def)
qed

lemma loop_body_ok:
  assumes nr: "\<And>w ms m. \<exists>out w'. client self w ms m = (Inr out, w')"
    and ok: "histories_ok st"
  shows "\<exists>fl st' g c. loop_body self st = (Inr fl, st') \<and> histories_ok st'
           \<and> trace st' = trace st @ [(g, c)] \<and> generation st' = Some g
           \<and> (fl = Break \<longleftrightarrow> py_in ''<OK>'' c)
           \<and> fst (generate self (generation_history st) (world st)) = Inr g"
proof -
  from nr obtain g w1 where g: "generate self (generation_history st) (world st) = (Inr g, w1)"
    unfolding generate_def request_completion_def completions_create_def by blast
  from ok obtain gh1 where gh1: "update_chat_history (generation_history st) g ''assistant'' = (None, gh1)"
    "history_class gh1 = FixedFirstChatHistory_class" "total_length gh1 = 3" "entries gh1 \<noteq> []"
    unfolding histories_ok_def using update_chat_history_ok by blast
  from ok obtain rh1 where rh1: "update_chat_history (reflection_history st) g ''user'' = (None, rh1)"
    "history_class rh1 = FixedFirstChatHistory_class" "total_length rh1 = 3" "entries rh1 \<noteq> []"
    unfolding histories_ok_def using update_chat_history_ok by blast
  from nr obtain c w2 where c: "reflect self rh1 w1 = (Inr c, w2)"
    unfolding reflect_def request_completion_def completions_create_def by blast
  from gh1 obtain gh2 where gh2: "update_chat_history gh1 c ''user'' = (None, gh2)"
    "history_class gh2 = FixedFirstChatHistory_class" "total_length gh2 = 3" "entries gh2 \<noteq> []"
    using update_chat_history_ok by blast
  from rh1 obtain rh2 where rh2: "update_chat_history rh1 c ''assistant'' = (None, rh2)"
    "history_class rh2 = FixedFirstChatHistory_class" "total_length rh2 = 3" "entries rh2 \<noteq> []"
    using update_chat_history_ok by blast
  show ?thesis
  proof (cases "py_in ''<OK>'' c")
    case True
    with g gh1 rh1 c show ?thesis
      by (simp add: loop_body_def histories_ok_def)
  next
    case False
    with g gh1 rh1 c gh2 rh2 show ?thesis
      by (simp add: loop_body_def histories_ok_def)
  qed
qed

lemma reflection_loop_trace:
  assumes nr: "\<And>w ms m. \<exists>out w'. client self w ms m = (Inr out, w')"
    and ok: "histories_ok st"
    and run: "reflection_loop self k st = (r, st')"
  shows "r = Inr () \<and> (\<exists>new. trace st' = trace st @ new
           \<and> ((\<forall>(d, c) \<in> set new. \<not> py_in ''<OK>'' c) \<longrightarrow> length new = k)
           \<and> (0 < k \<longrightarrow> new \<noteq> [] \<and> generation st' = Some (fst (last new))
                 \<and> fst (generate self (generation_history st) (world st)) = Inr (fst (hd new))
                 \<and> ((\<forall>(d, c) \<in> set new. py_in ''<OK>'' c) \<longrightarrow> length new = 1)))"
  using ok run
proof (induction k arbitrary: st)
  case 0
  then show ?case by simp
next
  case (Suc k)
  from loop_body_ok [OF nr Suc.prems(1)] obtain fl st1 g c where
    b: "loop_body self st = (Inr fl, st1)" "histories_ok st1"
       "trace st1 = trace st @ [(g, c)]" "generation st1 = Some g"
       "fl = Break \<longleftrightarrow> py_in ''<OK>'' c"
       "fst (generate self (generation_history st) (world st)) = Inr g"
    by blast
  show ?case
  proof (cases fl)
    case Break
    with b Suc.prems(2) have "r = Inr ()" "st' = st1" by simp_all
    with b Break show ?thesis by simp
  next
    case Continue
    with b Suc.prems(2) have "reflection_loop self k st1 = (r, st')" by simp
    from Suc.IH [OF b(2) this] obtain new where
      n: "r = Inr ()" "trace st' = trace st1 @ new"
         "(\<forall>(d, c) \<in> set new. \<not> py_in ''<OK>'' c) \<longrightarrow> length new = k"
         "0 < k \<longrightarrow> new \<noteq> [] \<and> generation st' = Some (fst (last new))"
      by blast
    have k0: "st' = st1" if "k = 0"
      using that \<open>reflection_loop self k st1 = (r, st')\<close> by simp
    from Continue b have nc: "\<not> py_in ''<OK>'' c" by simp
    let ?new = "(g, c) # new"
    have "trace st' = trace st @ ?new" using n b by simp
    moreover have "(\<forall>(d, c) \<in> set ?new. \<not> py_in ''<OK>'' c) \<longrightarrow> length ?new = Suc k"
      using n by simp
    moreover have "generation st' = Some (fst (last ?new))"
    proof (cases "k = 0")
      case True
      with k0 n b show ?thesis by simp
    next
      case False
      with n show ?thesis by simp
    qed
    moreover have "fst (generate self (generation_history st) (world st)) = Inr (fst (hd ?new))"
      using b by simp
    moreover have "(\<forall>(d, c) \<in> set ?new. py_in ''<OK>'' c) \<longrightarrow> length ?new = 1"
      using nc by simp
    ultimately show ?thesis using n(1) by blast
  qed
qed

lemma ReflectionAgent_run_trace:
  assumes n: "1 \<le> n_steps"
    and nr: "\<And>w ms m. \<exists>out w'. client self w ms m = (Inr out, w')"
    and run: "ReflectionAgent_run self user_msg gsp rsp n_steps w = (res, st)"
  shows "trace st \<noteq> [] \<and> res = Inr (fst (last (trace st)))
       \<and> fst (generate self (generation_history (initial_state user_msg gsp rsp w)) w)
           = Inr (fst (hd (trace st)))
       \<and> ((\<forall>(d, c) \<in> set (trace st). \<not> py_in ''<OK>'' c) \<longrightarrow> length (trace st) = nat n_steps)
       \<and> ((\<forall>(d, c) \<in> set (trace st). py_in ''<OK>'' c) \<longrightarrow> length (trace st) = 1)"
proof -
  let ?init = "initial_state user_msg gsp rsp w"
  obtain r st1 where l: "reflection_loop self (nat n_steps) ?init = (r, st1)"
    by (cases "reflection_loop self (nat n_steps) ?init")
  have w: "world ?init = w" and t: "trace ?init = []" by (simp_all add: initial_state_def)
  from n have pos: "0 < nat n_steps" by simp
  from reflection_loop_trace [OF nr histories_ok_initial l] pos t w obtain new where
    f: "r = Inr ()" "trace st1 = new" "new \<noteq> []" "generation st1 = Some (fst (last new))"
       "fst (generate self (generation_history ?init) w) = Inr (fst (hd new))"
       "(\<forall>(d, c) \<in> set new. \<not> py_in ''<OK>'' c) \<longrightarrow> length new = nat n_steps"
       "(\<forall>(d, c) \<in> set new. py_in ''<OK>'' c) \<longrightarrow> length new = 1"
    by auto
  from run l f have "res = Inr (fst (last new))" "st = st1"
    by (simp_all add: ReflectionAgent_run_def)
  with f show ?thesis by simp
qed

lemma approving_run:
  "fst (ReflectionAgent_run \<lparr>client = approving_client, model = ''m''\<rparr> ''hi'' [] [] 3 False) = Inr ''draft''"
  "trace (snd (ReflectionAgent_run \<lparr>client = approving_client, model = ''m''\<rparr> ''hi'' [] [] 3 False))
     = [(''draft'', ''Fine. <OK>'')]"
  by (simp_all add: ReflectionAgent_run_def initial_state_def eval_nat_numeral loop_body_def
      generate_def reflect_def request_completion_def completions_create_def approving_client_def
      update_chat_history_def history_append_def FixedFirstChatHistory_append_def
      FixedFirstChatHistory_def ChatHistory_def build_prompt_structure_def py_pop_def)

lemma demanding_run:
  "fst (ReflectionAgent_run \<lparr>client = demanding_client, model = ''m''\<rparr> ''hi'' [] [] 2 (False, 0)) = Inr ''**''"
  "trace (snd (ReflectionAgent_run \<lparr>client = demanding_client, model = ''m''\<rparr> ''hi'' [] [] 2 (False, 0)))
     = [(''*'', ''more''), (''**'', ''more'')]"
  by (simp_all add: ReflectionAgent_run_def initial_state_def eval_nat_numeral loop_body_def
      generate_def reflect_def request_completion_def completions_create_def demanding_client_def
      update_chat_history_def history_append_def FixedFirstChatHistory_append_def
      FixedFirstChatHistory_def ChatHistory_def build_prompt_structure_def py_pop_def)

text \<open>
  Claim C4. A run with \<open>n_steps \<ge> 1\<close> on a completion service that never raises, in which
  every critique obtained contains the stop marker: the run returns, the loop made exactly
  one iteration, and the value returned is the draft of that iteration, which is the
  generator's answer to the initial generation history.
\<close>

theorem reflection_critic_always_ok:
  assumes "1 \<le> n_steps"
    and "\<And>w ms m. \<exists>out w'. client self w ms m = (Inr out, w')"
    and "ReflectionAgent_run self user_msg gsp rsp n_steps w = (res, st)"
    and "\<forall>(d, c) \<in> set (trace st). py_in ''<OK>'' c"
  shows "length (trace st) = 1 \<and> res = Inr (fst (hd (trace st)))
       \<and> fst (generate self (generation_history (initial_state user_msg gsp rsp w)) w) = res"
proof -
  from ReflectionAgent_run_trace [OF assms(1,2,3)] assms(4)
  have t: "length (trace st) = 1" "res = Inr (fst (last (trace st)))"
    "fst (generate self (generation_history (initial_state user_msg gsp rsp w)) w)
       = Inr (fst (hd (trace st)))"
    by simp_all
  from t(1) obtain x where "trace st = [x]" by (cases "trace st") auto
  with t show ?thesis by simp
qed

theorem reflection_critic_always_ok_witness:
  "length (trace (snd (ReflectionAgent_run \<lparr>client = approving_client, model = ''m''\<rparr> ''hi'' [] [] 3 False))) = 1
   \<and> fst (ReflectionAgent_run \<lparr>client = approving_client, model = ''m''\<rparr> ''hi'' [] [] 3 False) = Inr ''draft''"
proof -
  let ?self = "\<lparr>client = approving_client, model = ''m''\<rparr>"
  let ?R = "ReflectionAgent_run ?self ''hi'' [] [] 3 False"
  have h1: "(1::int) \<le> 3" by simp
  have h2: "\<And>w ms m. \<exists>out w'. client ?self w ms m = (Inr out, w')"
    by (simp add: approving_client_def)
  have h3: "?R = (fst ?R, snd ?R)" by simp
  have h4: "\<forall>(d, c) \<in> set (trace (snd ?R)). py_in ''<OK>'' c"
    by (simp add: approving_run)
  from reflection_critic_always_ok [OF h1 h2 h3 h4] show ?thesis
    by (simp add: approving_run)
qed

text \<open>
  Claim C5. A run with \<open>n_steps \<ge> 1\<close> on a completion service that never raises, in which
  no critique obtained contains the stop marker: the run returns, the loop made exactly
  \<open>n_steps\<close> iterations, and the value returned is the draft of the last one.
\<close>

theorem reflection_critic_never_ok:
  assumes "1 \<le> n_steps"
    and "\<And>w ms m. \<exists>out w'. client self w ms m = (Inr out, w')"
    and "ReflectionAgent_run self user_msg gsp rsp n_steps w = (res, st)"
    and "\<forall>(d, c) \<in> set (trace st). \<not> py_in ''<OK>'' c"
  shows "int (length (trace st)) = n_steps \<and> res = Inr (fst (last (trace st)))"
  using ReflectionAgent_run_trace [OF assms(1,2,3)] assms(1,4) by simp

theorem reflection_critic_never_ok_witness:
  "length (trace (snd (ReflectionAgent_run \<lparr>client = demanding_client, model = ''m''\<rparr> ''hi'' [] [] 2 (False, 0)))) = 2
   \<and> fst (ReflectionAgent_run \<lparr>client = demanding_client, model = ''m''\<rparr> ''hi'' [] [] 2 (False, 0)) = Inr ''**''"
proof -
  let ?self = "\<lparr>client = demanding_client, model = ''m''\<rparr>"
  let ?R = "ReflectionAgent_run ?self ''hi'' [] [] 2 (False, 0)"
  have h1: "(1::int) \<le> 2" by simp
  have h2: "\<And>w ms m. \<exists>out w'. client ?self w ms m = (Inr out, w')"
    by (auto simp: demanding_client_def split: prod.split)
  have h3: "?R = (fst ?R, snd ?R)" by simp
  have h4: "\<forall>(d, c) \<in> set (trace (snd ?R)). \<not> py_in ''<OK>'' c"
    by (simp add: demanding_run)
  from reflection_critic_never_ok [OF h1 h2 h3 h4] show ?thesis
    by (simp add: demanding_run)
qed

text \<open>
  Claim C10. With \<open>n_steps \<le> 0\<close> the loop body is never entered: no completion is
  requested, the state is the initial one, and the final \<^verbatim>\<open>return generation\<close> raises
  UnboundLocalError. So a run that returns a draft has \<open>n_steps \<ge> 1\<close>.
\<close>

theorem reflection_no_steps_raises:
  "(n_steps \<le> 0 \<longrightarrow>
      ReflectionAgent_run self user_msg gsp rsp n_steps w
        = (Inl UnboundLocalError, initial_state user_msg gsp rsp w))
   \<and> (fst (ReflectionAgent_run self user_msg gsp rsp n_steps w) = Inr d \<longrightarrow> 1 \<le> n_steps)"
proof -
  have a: "ReflectionAgent_run self user_msg gsp rsp n_steps w
        = (Inl UnboundLocalError, initial_state user_msg gsp rsp w)" if "n_steps \<le> 0"
    using that by (simp add: ReflectionAgent_run_def initial_state_def)
  then have "\<not> n_steps \<le> 0" if "fst (ReflectionAgent_run self user_msg gsp rsp n_steps w) = Inr d"
    using that by auto
  with a show ?thesis by auto
qed

theorem reflection_no_steps_raises_witness:
  "fst (ReflectionAgent_run \<lparr>client = approving_client, model = ''m''\<rparr> ''hi'' [] [] 0 False)
     = Inl UnboundLocalError
   \<and> fst (ReflectionAgent_run \<lparr>client = approving_client, model = ''m''\<rparr> ''hi'' [] [] (- 1) False)
     = Inl UnboundLocalError
   \<and> fst (ReflectionAgent_run \<lparr>client = approving_client, model = ''m''\<rparr> ''hi'' [] [] 3 False)
     = Inr ''draft'' \<and> (1::int) \<le> 3"
  using reflection_no_steps_raises [of 0 "\<lparr>client = approving_client, model = ''m''\<rparr>" "''hi''" "[]" "[]" False "''draft''"]
        reflection_no_steps_raises [of "- 1" "\<lparr>client = approving_client, model = ''m''\<rparr>" "''hi''" "[]" "[]" False "''draft''"]
        reflection_no_steps_raises [of 3 "\<lparr>client = approving_client, model = ''m''\<rparr>" "''hi''" "[]" "[]" False "''draft''"]
  by (simp add: approving_run)

section \<open>Properties of the tag extractor\<close>

lemma compile_tag_literal: "tag_literal tag \<Longrightarrow> compile_tag tag = Some (map Lit tag)"
proof (induction tag)
  case Nil
  then show ?case by (simp add: compile_tag_def)
next
  case (Cons c tag)
  then have "c \<notin> set regex_special" and "tag_literal tag"
    by (simp_all add: tag_literal_def)
  moreover from \<open>c \<notin> set regex_special\<close> have "c \<noteq> CHR ''.''"
    by (auto simp: regex_special_def)
  ultimately show ?case
    using Cons.IH by (simp add: compile_tag_def compile_char_def)
qed

lemma match_atoms_literal: "match_atoms (map Lit p) s = Some r \<longleftrightarrow> s = p @ r"
proof (induction p arbitrary: s)
  case Nil
  then show ?case by auto
next
  case (Cons a p)
  then show ?case by (cases s) auto
qed

lemma lazy_group_decomposes:
  "lazy_group (map Lit cl) s = Some (inner, rest) \<Longrightarrow> s = inner @ cl @ rest"
proof (induction s arbitrary: inner)
  case Nil
  then show ?case
    by (auto simp: match_atoms_literal split: option.splits)
next
  case (Cons c cs)
  show ?case
  proof (cases "match_atoms (map Lit cl) (c # cs)")
    case (Some r)
    with Cons.prems show ?thesis by (auto simp: match_atoms_literal)
  next
    case None
    with Cons.prems obtain inner0 where
      "lazy_group (map Lit cl) cs = Some (inner0, rest)" "inner = c # inner0"
      by (auto split: option.splits)
    with Cons.IH show ?thesis by simp
  qed
qed

lemma lazy_group_shortest:
  "lazy_group (map Lit cl) s = Some (inner, rest) \<Longrightarrow> prefix (inner' @ cl) s
     \<Longrightarrow> length inner \<le> length inner'"
proof (induction s arbitrary: inner inner')
  case Nil
  then show ?case by (auto split: option.splits)
next
  case (Cons c cs)
  show ?case
  proof (cases "match_atoms (map Lit cl) (c # cs)")
    case (Some r)
    with Cons.prems show ?thesis by auto
  next
    case None
    with Cons.prems obtain inner0 where
      l: "lazy_group (map Lit cl) cs = Some (inner0, rest)" "inner = c # inner0"
      by (auto split: option.splits)
    show ?thesis
    proof (cases inner')
      case Nil
      with Cons.prems(2) obtain r where "c # cs = cl @ r" by (auto simp: prefix_def)
      then have "match_atoms (map Lit cl) (c # cs) = Some r" by (simp only: match_atoms_literal)
      with None show ?thesis by simp
    next
      case (Cons c' inner0')
      with Cons.prems(2) have "prefix (inner0' @ cl) cs" by simp
      from Cons.IH [OF l(1) this] l Cons show ?thesis by simp
    qed
  qed
qed

lemma lazy_group_finds:
  "s = inner @ cl @ rest \<Longrightarrow> \<exists>inner' rest'. lazy_group (map Lit cl) s = Some (inner', rest')"
proof (induction inner arbitrary: s)
  case Nil
  then have "match_atoms (map Lit cl) s = Some rest" by (simp add: match_atoms_literal)
  then show ?case by (cases s) auto
next
  case (Cons c inner)
  from Cons.IH [of "inner @ cl @ rest"] obtain i r where
    "lazy_group (map Lit cl) (inner @ cl @ rest) = Some (i, r)" by blast
  with Cons.prems show ?case
    by (cases "match_atoms (map Lit cl) (c # inner @ cl @ rest)") auto
qed

lemma findall_from_skip:
  "length xs = k \<Longrightarrow> findall_from opn cl k (xs @ s) = findall_from opn cl 0 s"
proof (induction xs arbitrary: k)
  case Nil
  then show ?case by simp
next
  case (Cons x xs)
  then obtain k' where "k = Suc k'" "length xs = k'" by (cases k) auto
  with Cons.IH show ?case by simp
qed

text \<open>
  The scan, for literal opening and closing tags: either the text holds no occurrence and
  nothing is found, or the first group found is the text between the first opening tag
  and the first closing tag behind it, and the scan goes on behind that closing tag.
\<close>

lemma findall_first_occurrence:
  assumes "opn \<noteq> []"
  shows "(findall_from (map Lit opn) (map Lit cl) 0 text = []
            \<and> \<not> (\<exists>pre inner post. text = pre @ opn @ inner @ cl @ post))
       \<or> (\<exists>pre inner post. text = pre @ opn @ inner @ cl @ post
            \<and> (\<forall>pre'. prefix (pre' @ opn) text \<longrightarrow> length pre \<le> length pre')
            \<and> (\<forall>inner'. prefix (inner' @ cl) (inner @ cl @ post) \<longrightarrow> length inner \<le> length inner')
            \<and> findall_from (map Lit opn) (map Lit cl) 0 text
                = inner # findall_from (map Lit opn) (map Lit cl) 0 post)"
proof (induction "text")
  case Nil
  with assms show ?case by simp
next
  case (Cons c cs)
  let ?F = "findall_from (map Lit opn) (map Lit cl) 0"
  show ?case
  proof (cases "match_here (map Lit opn) (map Lit cl) (c # cs)")
    case (Some m)
    obtain inner rest where m: "m = (inner, rest)" by (cases m)
    from Some m obtain s1 where
      s1: "c # cs = opn @ s1" "lazy_group (map Lit cl) s1 = Some (inner, rest)"
      by (auto simp: match_here_def match_atoms_literal split: option.splits)
    from lazy_group_decomposes [OF s1(2)] have d: "s1 = inner @ cl @ rest" .
    from assms s1(1) obtain opn' where opn': "opn = c # opn'" by (cases opn) auto
    with s1 d have cs: "cs = (opn' @ inner @ cl) @ rest" by simp
    have "length cs - length rest = length (opn' @ inner @ cl)" unfolding cs by simp
    then have "findall_from (map Lit opn) (map Lit cl) (length cs - length rest) cs = ?F rest"
      using findall_from_skip [of "opn' @ inner @ cl" _ "map Lit opn" "map Lit cl" rest] cs
      by simp
    with Some m have f: "?F (c # cs) = inner # ?F rest" by simp
    have "c # cs = [] @ opn @ inner @ cl @ rest" using s1 d by simp
    moreover have "\<forall>pre'. prefix (pre' @ opn) (c # cs) \<longrightarrow> length ([]::string) \<le> length pre'"
      by simp
    moreover have "\<forall>inner'. prefix (inner' @ cl) (inner @ cl @ rest) \<longrightarrow> length inner \<le> length inner'"
      using lazy_group_shortest [OF s1(2)] d by blast
    ultimately show ?thesis using f by blast
  next
    case None
    then have f: "?F (c # cs) = ?F cs" by simp
    have no_head: False if "c # cs = opn @ inner @ cl @ post" for inner post
    proof -
      from that have "match_atoms (map Lit opn) (c # cs) = Some (inner @ cl @ post)"
        by (simp add: match_atoms_literal)
      moreover from lazy_group_finds [of "inner @ cl @ post" inner cl post]
      obtain i r where "lazy_group (map Lit cl) (inner @ cl @ post) = Some (i, r)" by blast
      ultimately show False using None by (simp add: match_here_def)
    qed
    from Cons.IH show ?thesis
    proof
      assume a: "?F cs = [] \<and> \<not> (\<exists>pre inner post. cs = pre @ opn @ inner @ cl @ post)"
      have "\<not> (\<exists>pre inner post. c # cs = pre @ opn @ inner @ cl @ post)"
      proof
        assume "\<exists>pre inner post. c # cs = pre @ opn @ inner @ cl @ post"
        then obtain pre inner post where e: "c # cs = pre @ opn @ inner @ cl @ post" by blast
        show False
        proof (cases pre)
          case Nil
          with e have "c # cs = opn @ inner @ cl @ post" by simp
          then show False by (rule no_head)
        next
          case (Cons p pre')
          with e have "cs = pre' @ opn @ inner @ cl @ post" by simp
          with a show False by blast
        qed
      qed
      with a f show ?thesis by simp
    next
      assume "\<exists>pre inner post. cs = pre @ opn @ inner @ cl @ post
            \<and> (\<forall>pre'. prefix (pre' @ opn) cs \<longrightarrow> length pre \<le> length pre')
            \<and> (\<forall>inner'. prefix (inner' @ cl) (inner @ cl @ post) \<longrightarrow> length inner \<le> length inner')
            \<and> ?F cs = inner # ?F post"
      then obtain pre inner post where
        e: "cs = pre @ opn @ inner @ cl @ post"
        and mp: "\<forall>pre'. prefix (pre' @ opn) cs \<longrightarrow> length pre \<le> length pre'"
        and mi: "\<forall>inner'. prefix (inner' @ cl) (inner @ cl @ post) \<longrightarrow> length inner \<le> length inner'"
        and r: "?F cs = inner # ?F post"
        by blast
      have a1: "c # cs = (c # pre) @ opn @ inner @ cl @ post" using e by simp
      have a2: "\<forall>pre'. prefix (pre' @ opn) (c # cs) \<longrightarrow> length (c # pre) \<le> length pre'"
      proof (intro allI impI)
        fix pre' assume p: "prefix (pre' @ opn) (c # cs)"
        show "length (c # pre) \<le> length pre'"
        proof (cases pre')
          case Nil
          with p obtain s1 where s1: "c # cs = opn @ s1" by (auto simp: prefix_def)
          have "length opn \<le> length ((c # pre) @ opn)" by simp
          then obtain z where z: "(c # pre) @ opn = opn @ z"
            using s1 e
            by (metis append.assoc append_Cons append_eq_append_conv_if append_take_drop_id)
          with e have "c # cs = opn @ z @ inner @ cl @ post"
            by (metis append.assoc append_Cons)
          then have "c # cs = opn @ (z @ inner) @ cl @ post" by simp
          then have False by (rule no_head)
          then show ?thesis ..
        next
          case (Cons p' pre'')
          with p have "prefix (pre'' @ opn) cs" by simp
          with mp Cons show ?thesis by simp
        qed
      qed
      have a4: "?F (c # cs) = inner # ?F post" using r f by simp
      have "c # cs = (c # pre) @ opn @ inner @ cl @ post
            \<and> (\<forall>pre'. prefix (pre' @ opn) (c # cs) \<longrightarrow> length (c # pre) \<le> length pre')
            \<and> (\<forall>inner'. prefix (inner' @ cl) (inner @ cl @ post) \<longrightarrow> length inner \<le> length inner')
            \<and> ?F (c # cs) = inner # ?F post"
        using a1 a2 mi a4 by (intro conjI)
      then show ?thesis by (intro disjI2 exI)
    qed
  qed
qed

lemma opening_tag_not_empty: "opening_tag tag \<noteq> []"
  by (simp add: opening_tag_def)

lemma findall_spec_occurrences:
  "spec_occurrences tag text
     (findall_from (map Lit (opening_tag tag)) (map Lit (closing_tag tag)) 0 text)"
proof (induction "length text" arbitrary: "text" rule: less_induct)
  case less
  let ?F = "findall_from (map Lit (opening_tag tag)) (map Lit (closing_tag tag)) 0"
  from findall_first_occurrence [OF opening_tag_not_empty, of tag "closing_tag tag" "text"]
  show ?case
  proof
    assume "?F text = []
       \<and> \<not> (\<exists>pre inner post. text = pre @ opening_tag tag @ inner @ closing_tag tag @ post)"
    then show ?thesis by (simp add: spec_occurrences.no_occurrence)
  next
    assume "\<exists>pre inner post. text = pre @ opening_tag tag @ inner @ closing_tag tag @ post
            \<and> (\<forall>pre'. prefix (pre' @ opening_tag tag) text \<longrightarrow> length pre \<le> length pre')
            \<and> (\<forall>inner'. prefix (inner' @ closing_tag tag) (inner @ closing_tag tag @ post)
                  \<longrightarrow> length inner \<le> length inner')
            \<and> ?F text = inner # ?F post"
    then obtain pre inner post where
      e: "text = pre @ opening_tag tag @ inner @ closing_tag tag @ post"
      and mp: "\<forall>pre'. prefix (pre' @ opening_tag tag) text \<longrightarrow> length pre \<le> length pre'"
      and mi: "\<forall>inner'. prefix (inner' @ closing_tag tag) (inner @ closing_tag tag @ post)
                  \<longrightarrow> length inner \<le> length inner'"
      and r: "?F text = inner # ?F post"
      by blast
    from e have "length post < length text" by (simp add: opening_tag_def)
    then have "spec_occurrences tag post (?F post)" by (rule less)
    from spec_occurrences.occurrence [OF e mp mi this] r show ?thesis by simp
  qed
qed

lemma spec_occurrences_unique:
  "spec_occurrences tag text xs
     \<Longrightarrow> xs = findall_from (map Lit (opening_tag tag)) (map Lit (closing_tag tag)) 0 text"
proof (induction rule: spec_occurrences.induct)
  case (no_occurrence t)
  with findall_first_occurrence [OF opening_tag_not_empty, of tag "closing_tag tag" t]
  show ?case by auto
next
  case (occurrence t pre inner post inners)
  let ?F = "findall_from (map Lit (opening_tag tag)) (map Lit (closing_tag tag)) 0"
  from findall_first_occurrence [OF opening_tag_not_empty, of tag "closing_tag tag" t]
    occurrence.hyps(1)
  obtain pre2 inner2 post2 where
    e: "t = pre2 @ opening_tag tag @ inner2 @ closing_tag tag @ post2"
    and mp: "\<forall>pre'. prefix (pre' @ opening_tag tag) t \<longrightarrow> length pre2 \<le> length pre'"
    and mi: "\<forall>inner'. prefix (inner' @ closing_tag tag) (inner2 @ closing_tag tag @ post2)
                \<longrightarrow> length inner2 \<le> length inner'"
    and r: "?F t = inner2 # ?F post2"
    by blast
  have "prefix (pre2 @ opening_tag tag) t" using e by (simp add: prefix_def)
  with occurrence.hyps(2) have "length pre \<le> length pre2" by blast
  moreover have "prefix (pre @ opening_tag tag) t" using occurrence.hyps(1) by (simp add: prefix_def)
  with mp have "length pre2 \<le> length pre" by blast
  ultimately have "length pre = length pre2" by simp
  with e occurrence.hyps(1) have p: "pre = pre2"
    and rest: "inner @ closing_tag tag @ post = inner2 @ closing_tag tag @ post2"
    by simp_all
  have "prefix (inner2 @ closing_tag tag) (inner @ closing_tag tag @ post)"
    unfolding rest by (simp add: prefix_def)
  with occurrence.hyps(3) have "length inner \<le> length inner2" by blast
  moreover have "prefix (inner @ closing_tag tag) (inner2 @ closing_tag tag @ post2)"
    unfolding rest [symmetric] by (simp add: prefix_def)
  with mi have "length inner2 \<le> length inner" by blast
  ultimately have "length inner = length inner2" by simp
  with rest have "inner = inner2" "post = post2" by simp_all
  with r occurrence.IH show ?case by simp
qed

lemma re_findall_literal:
  assumes "tag_literal tag"
  shows "re_findall_tag_pattern tag text
     = Some (findall_from (map Lit (opening_tag tag)) (map Lit (closing_tag tag)) 0 text)"
  using compile_tag_literal [OF assms]
  by (simp add: re_findall_tag_pattern_def opening_tag_def closing_tag_def)

text \<open>
  On a tag made only of characters without special meaning in a regular expression the
  extractor does what is specified: it returns the whitespace-trimmed inner texts of the
  occurrences of \<^verbatim>\<open><tag>...</tag>\<close>, in order of appearance and none overlapping another
  (each occurrence runs from the first opening tag to the first closing tag behind it,
  and the list of them is unique), with \<open>found\<close> true exactly when the text holds at
  least one occurrence. A text without occurrence, the empty text among them, gives an
  empty list and \<open>found = False\<close>.
\<close>

theorem extract_tag_content_literal_tag:
  assumes "tag_literal tag"
  shows "\<exists>inners. spec_occurrences tag text inners
           \<and> (\<forall>ys. spec_occurrences tag text ys \<longrightarrow> ys = inners)
           \<and> extract_tag_content text tag
                = Some \<lparr>tag_content = map py_strip inners, found = (inners \<noteq> [])\<rparr>
           \<and> (inners \<noteq> [] \<longleftrightarrow>
                (\<exists>pre inner post. text = pre @ opening_tag tag @ inner @ closing_tag tag @ post))"
proof -
  let ?inners = "findall_from (map Lit (opening_tag tag)) (map Lit (closing_tag tag)) 0 text"
  have a: "spec_occurrences tag text ?inners" by (rule findall_spec_occurrences)
  have b: "\<forall>ys. spec_occurrences tag text ys \<longrightarrow> ys = ?inners"
    using spec_occurrences_unique by blast
  have c: "extract_tag_content text tag
             = Some \<lparr>tag_content = map py_strip ?inners, found = (?inners \<noteq> [])\<rparr>"
    using re_findall_literal [OF assms, of "text"] by (simp add: extract_tag_content_def)
  have d: "?inners \<noteq> [] \<longleftrightarrow>
             (\<exists>pre inner post. text = pre @ opening_tag tag @ inner @ closing_tag tag @ post)"
    using findall_first_occurrence [OF opening_tag_not_empty, of tag "closing_tag tag" "text"]
    by auto
  from a b c d show ?thesis by blast
qed

theorem extract_tag_content_literal_tag_witness:
  "tag_literal ''a''
   \<and> extract_tag_content ''<a>x</a><a>y</a>'' ''a''
        = Some \<lparr>tag_content = [''x'', ''y''], found = True\<rparr>
   \<and> extract_tag_content ''no tags'' ''a'' = Some \<lparr>tag_content = [], found = False\<rparr>
   \<and> extract_tag_content [] ''a'' = Some \<lparr>tag_content = [], found = False\<rparr>"
  using extract_tag_content_literal_tag [of "''a''" "''<a>x</a><a>y</a>''"]
  by (simp add: tag_literal_def regex_special_def extract_tag_content_def
      re_findall_tag_pattern_def compile_tag_def compile_char_def match_here_def
      py_strip_def py_isspace_def)

text \<open>
  Claim C6. The claim speaks of every tag name, and the docstring of
  \<^verbatim>\<open>extract_tag_content\<close> of content enclosed by the specified tags, but the tag goes into
  the pattern unescaped. For the tag \<^verbatim>\<open>a.b\<close> the dot of the pattern matches any
  character: on the text \<^verbatim>\<open><aXb>q</aXb>\<close>, which holds no \<^verbatim>\<open><a.b>\<close>, the code returns the
  content \<^verbatim>\<open>["q"]\<close> with \<open>found = True\<close>, where the claim gives an empty list and
  \<open>found = False\<close>.
\<close>

theorem extract_tag_content_unescaped_tag:
  "extract_tag_content ''<aXb>q</aXb>'' ''a.b'' = Some \<lparr>tag_content = [''q''], found = True\<rparr>
   \<and> \<not> py_in (opening_tag ''a.b'') ''<aXb>q</aXb>''"
  by (simp add: extract_tag_content_def re_findall_tag_pattern_def compile_tag_def
      compile_char_def regex_special_def match_here_def py_strip_def py_isspace_def
      opening_tag_def)

section \<open>Properties of the tool wrapper\<close>

lemma validate_loop_append:
  "validate_loop rt props (xs @ ys) args =
     (case validate_loop rt props xs args of
        Inl e \<Rightarrow> Inl e
      | Inr args' \<Rightarrow> validate_loop rt props ys args')"
proof (induction xs arbitrary: args)
  case Nil
  then show ?case by simp
next
  case (Cons x xs)
  obtain k v where x: "x = (k, v)" by (cases x)
  show ?case unfolding x
    by (simp add: Cons.IH split: sum.splits)
qed

lemma dict_setitem_at:
  assumes "k \<notin> set (map fst before)"
  shows "dict_setitem k v (before @ (k, x) # after) = before @ (k, v) # after"
  using assms by (induction before) auto

lemma dict_setitem_same: "map_of kvs k = Some v \<Longrightarrow> dict_setitem k v kvs = kvs"
  by (induction kvs) (auto split: if_splits)

text \<open>
  One pass of the loop, by what it computes for the argument: it ends the loop with the
  exception, or goes on with the computed value stored under the argument's name.
\<close>

lemma validate_loop_step:
  assumes "k \<notin> set (map fst seen)"
  shows "validate_loop rt props ((k, v) # items) (seen @ (k, v) # items) =
           (case coerce_argument rt props k v of
              Inl e \<Rightarrow> Inl e
            | Inr v' \<Rightarrow> validate_loop rt props items (seen @ (k, v') # items))"
  using dict_setitem_at [OF assms]
  by (auto simp: coerce_argument_def split: sum.splits)

lemma validate_loop_coerce_all:
  assumes "distinct (map fst (seen @ items))"
  shows "validate_loop rt props items (seen @ items) =
           (case coerce_all rt props items of
              Inl e \<Rightarrow> Inl e
            | Inr items' \<Rightarrow> Inr (seen @ items'))"
  using assms
proof (induction items arbitrary: seen)
  case Nil
  then show ?case by simp
next
  case (Cons x items)
  obtain k v where x: "x = (k, v)" by (cases x)
  from Cons.prems x have k: "k \<notin> set (map fst seen)" by auto
  show ?case
  proof (cases "coerce_argument rt props k v")
    case (Inl e)
    with validate_loop_step [OF k, of rt props v items] show ?thesis unfolding x by simp
  next
    case (Inr v')
    from Cons.prems x have "distinct (map fst ((seen @ [(k, v')]) @ items))" by auto
    from Cons.IH [OF this] Inr validate_loop_step [OF k, of rt props v items]
    show ?thesis unfolding x by (simp split: sum.splits)
  qed
qed

lemma coerce_all_append:
  "coerce_all rt props (xs @ ys) =
     (case coerce_all rt props xs of
        Inl e \<Rightarrow> Inl e
      | Inr xs' \<Rightarrow>
          (case coerce_all rt props ys of
             Inl e \<Rightarrow> Inl e
           | Inr ys' \<Rightarrow> Inr (xs' @ ys')))"
proof (induction xs)
  case Nil
  then show ?case by (simp split: sum.splits)
next
  case (Cons x xs)
  obtain k v where x: "x = (k, v)" by (cases x)
  show ?case unfolding x by (simp add: Cons.IH split: sum.splits)
qed

lemma coerce_all_length: "coerce_all rt props xs = Inr xs' \<Longrightarrow> length xs' = length xs"
proof (induction xs arbitrary: xs')
  case Nil
  then show ?case by simp
next
  case (Cons x xs)
  obtain k v where x: "x = (k, v)" by (cases x)
  from Cons.prems show ?case unfolding x
    by (auto split: sum.splits dest: Cons.IH)
qed

lemma int_of_str_5: "int_of_str rt ''5'' = Inr 5"
proof -
  have s: "int_strip ''5'' = ''5''" by (simp add: int_strip_def int_isspace_def)
  have d: "is_digit CHR ''5''" by (simp add: is_digit_def)
  have "\<not> (int_max_str_digits rt \<noteq> 0 \<and> int_max_str_digits rt < 1)" by auto
  then show ?thesis
    by (simp add: int_of_str_def s d digit_value_def)
qed

lemma dropWhile_keeps: "x \<in> set xs \<Longrightarrow> \<not> P x \<Longrightarrow> x \<in> set (dropWhile P xs)"
  by (induction xs) auto

lemma int_strip_keeps: "c \<in> set s \<Longrightarrow> \<not> int_isspace c \<Longrightarrow> c \<in> set (int_strip s)"
  by (simp add: int_strip_def dropWhile_keeps)

lemma parse_digits_rejects:
  "c \<in> set body \<Longrightarrow> \<not> is_digit c \<Longrightarrow> c \<noteq> CHR ''_'' \<Longrightarrow> parse_digits body after_digit acc = None"
  by (induction body after_digit acc rule: parse_digits.induct) auto

lemma int_of_str_non_numeric:
  assumes "c \<in> set s" "\<not> is_digit c" "c \<noteq> CHR ''_''" "c \<noteq> CHR ''+''" "c \<noteq> CHR ''-''"
    "\<not> int_isspace c"
  shows "int_of_str rt s = Inl ValueError"
proof -
  from assms have t: "c \<in> set (int_strip s)" by (simp add: int_strip_keeps)
  show ?thesis
  proof (cases "int_strip s")
    case Nil
    with t show ?thesis by simp
  next
    case (Cons d ds)
    from t Cons have "c \<in> set (d # ds)" by simp
    from parse_digits_rejects [OF this assms(2,3)]
    have whole: "parse_digits (d # ds) False 0 = None" .
    show ?thesis
    proof (cases "d = CHR ''-'' \<or> d = CHR ''+''")
      case True
      with t Cons assms(4,5) have "c \<in> set ds" by auto
      from parse_digits_rejects [OF this assms(2,3)] have "parse_digits ds False 0 = None" .
      with True Cons show ?thesis by (auto simp: int_of_str_def simp del: parse_digits.simps)
    next
      case False
      with whole Cons show ?thesis by (simp add: int_of_str_def del: parse_digits.simps)
    qed
  qed
qed

lemma coerce_argument_declared:
  assumes "declared_type props k = Some ty"
  shows "coerce_argument rt (PDict props) k v =
           (if \<not> py_isinstance v ty then construct rt ty v else Inr v)"
proof -
  from assms obtain p e where
    "py_getitem (PDict props) k = Inr p" "py_get p ''type'' = Inr e"
    "type_mapping_getitem e = Inr ty"
    unfolding declared_type_def by (auto split: sum.splits)
  then show ?thesis by (simp add: coerce_argument_def)
qed

lemma validate_loop_whole:
  assumes "distinct (map fst items)"
  shows "validate_loop rt props items items = coerce_all rt props items"
  using validate_loop_coerce_all [of "[]" items rt props] assms
  by (simp split: sum.splits)

text \<open>
  The result of \<open>validate_arguments\<close> on a call that holds \<open>k\<close>, by what is computed for
  \<open>k\<close>: the exception of an argument before \<open>k\<close>, else the exception for \<open>k\<close>, else the
  exception of an argument behind \<open>k\<close>, else the call with the computed value under \<open>k\<close>
  and the other arguments as the validation of the call without \<open>k\<close> leaves them.
\<close>

lemma validate_arguments_at:
  assumes sig: "py_getitem tool_signature ''parameters'' = Inr parameters"
               "py_getitem parameters ''properties'' = Inr (PDict props)"
    and call: "map_of tool_call ''arguments'' = Some (PDict (before @ (k, v) # after))"
    and keys: "distinct (map fst (before @ (k, v) # after))"
  shows "coerce_argument rt (PDict props) k v = Inl e \<Longrightarrow>
           validate_arguments rt (PDict tool_call) tool_signature =
             (case validate_loop rt (PDict props) before before of
                Inl e' \<Rightarrow> Inl e'
              | Inr _ \<Rightarrow> Inl e)"
    and "coerce_argument rt (PDict props) k v = Inr v' \<Longrightarrow>
           validate_arguments rt (PDict tool_call) tool_signature =
             (case validate_loop rt (PDict props) (before @ after) (before @ after) of
                Inl e' \<Rightarrow> Inl e'
              | Inr others \<Rightarrow>
                  Inr (PDict (dict_setitem ''arguments''
                         (PDict (take (length before) others @ (k, v') # drop (length before) others))
                         tool_call)))"
proof -
  let ?P = "PDict props"
  let ?items = "before @ (k, v) # after"
  have R: "validate_arguments rt (PDict tool_call) tool_signature =
              (case coerce_all rt ?P ?items of
                 Inl e \<Rightarrow> Inl e
               | Inr ys \<Rightarrow> Inr (PDict (dict_setitem ''arguments'' (PDict ys) tool_call)))"
    using sig call validate_loop_whole [OF keys, of rt ?P]
    by (simp add: validate_arguments_def split: sum.splits)
  from keys have db: "distinct (map fst before)" and dba: "distinct (map fst (before @ after))"
    by auto
  note VB = validate_loop_whole [OF db, of rt ?P]
  note VO = validate_loop_whole [OF dba, of rt ?P]
  show "validate_arguments rt (PDict tool_call) tool_signature =
             (case validate_loop rt ?P before before of Inl e' \<Rightarrow> Inl e' | Inr _ \<Rightarrow> Inl e)"
    if "coerce_argument rt ?P k v = Inl e"
    unfolding R VB using that by (simp add: coerce_all_append split: sum.splits)
  show "validate_arguments rt (PDict tool_call) tool_signature =
             (case validate_loop rt ?P (before @ after) (before @ after) of
                Inl e' \<Rightarrow> Inl e'
              | Inr others \<Rightarrow>
                  Inr (PDict (dict_setitem ''arguments''
                         (PDict (take (length before) others @ (k, v') # drop (length before) others))
                         tool_call)))"
    if c: "coerce_argument rt ?P k v = Inr v'"
  proof (cases "coerce_all rt ?P before")
    case (Inl e1)
    then show ?thesis unfolding R VO using c by (simp add: coerce_all_append)
  next
    case b: (Inr bs)
    then have lb: "length bs = length before" by (rule coerce_all_length)
    show ?thesis
    proof (cases "coerce_all rt ?P after")
      case (Inl e2)
      with b show ?thesis unfolding R VO using c by (simp add: coerce_all_append)
    next
      case (Inr as)
      with b lb show ?thesis unfolding R VO using c by (simp add: coerce_all_append)
    qed
  qed
qed

text \<open>
  Claim C7. A tool call whose arguments hold \<open>k\<close> with value \<open>v\<close>, for a schema that
  declares \<open>k\<close> as \<^verbatim>\<open>int\<close>; the other arguments are arbitrary. If \<open>v\<close> is the text \<^verbatim>\<open>"5"\<close>,
  the call comes back with the integer 5 under \<open>k\<close>, unless another argument raises. If
  \<open>v\<close> is a text with a character that is not a digit, an underscore, a sign or white
  space for \<^verbatim>\<open>int\<close>, \<^verbatim>\<open>"abc"\<close> for one, the call never comes back: ValueError is raised,
  unless an argument before \<open>k\<close> raised first. If \<open>v\<close> is an instance of \<^verbatim>\<open>int\<close> already,
  the call comes back with \<open>v\<close> under \<open>k\<close>, unless another argument raises. In the calls
  that come back the other arguments are as the validation of the call without \<open>k\<close>
  leaves them.
\<close>

theorem validate_arguments_int:
  assumes sig: "py_getitem tool_signature ''parameters'' = Inr parameters"
               "py_getitem parameters ''properties'' = Inr (PDict props)"
    and call: "map_of tool_call ''arguments'' = Some (PDict (before @ (k, v) # after))"
    and keys: "distinct (map fst (before @ (k, v) # after))"
    and decl: "declared_type props k = Some T_int"
  shows "(v = PStr ''5'' \<longrightarrow>
            validate_arguments rt (PDict tool_call) tool_signature =
              (case validate_loop rt (PDict props) (before @ after) (before @ after) of
                 Inl e \<Rightarrow> Inl e
               | Inr others \<Rightarrow>
                   Inr (PDict (dict_setitem ''arguments''
                          (PDict (take (length before) others @ (k, PInt 5)
                                    # drop (length before) others))
                          tool_call))))
       \<and> (\<forall>s c. v = PStr s \<and> c \<in> set s \<and> \<not> is_digit c \<and> c \<noteq> CHR ''_'' \<and> c \<noteq> CHR ''+''
               \<and> c \<noteq> CHR ''-'' \<and> \<not> int_isspace c \<longrightarrow>
            validate_arguments rt (PDict tool_call) tool_signature =
              (case validate_loop rt (PDict props) before before of
                 Inl e \<Rightarrow> Inl e
               | Inr _ \<Rightarrow> Inl ValueError))
       \<and> (v = PStr ''abc'' \<longrightarrow>
            validate_arguments rt (PDict tool_call) tool_signature =
              (case validate_loop rt (PDict props) before before of
                 Inl e \<Rightarrow> Inl e
               | Inr _ \<Rightarrow> Inl ValueError))
       \<and> (py_isinstance v T_int \<longrightarrow>
            validate_arguments rt (PDict tool_call) tool_signature =
              (case validate_loop rt (PDict props) (before @ after) (before @ after) of
                 Inl e \<Rightarrow> Inl e
               | Inr others \<Rightarrow>
                   Inr (PDict (dict_setitem ''arguments''
                          (PDict (take (length before) others @ (k, v)
                                    # drop (length before) others))
                          tool_call))))"
proof -
  note at = validate_arguments_at [OF sig call keys, of rt]
  note ck = coerce_argument_declared [OF decl, of rt v]
  have five: "validate_arguments rt (PDict tool_call) tool_signature =
              (case validate_loop rt (PDict props) (before @ after) (before @ after) of
                 Inl e \<Rightarrow> Inl e
               | Inr others \<Rightarrow>
                   Inr (PDict (dict_setitem ''arguments''
                          (PDict (take (length before) others @ (k, PInt 5)
                                    # drop (length before) others))
                          tool_call)))"
    if "v = PStr ''5''"
  proof -
    from ck that have "coerce_argument rt (PDict props) k v = Inr (PInt 5)"
      by (simp add: int_of_str_5)
    then show ?thesis by (rule at(2))
  qed
  have bad: "validate_arguments rt (PDict tool_call) tool_signature =
              (case validate_loop rt (PDict props) before before of
                 Inl e \<Rightarrow> Inl e
               | Inr _ \<Rightarrow> Inl ValueError)"
    if "v = PStr s" "c \<in> set s" "\<not> is_digit c" "c \<noteq> CHR ''_''" "c \<noteq> CHR ''+''"
       "c \<noteq> CHR ''-''" "\<not> int_isspace c" for s c
  proof -
    from ck that(1) int_of_str_non_numeric [OF that(2-7), of rt]
    have "coerce_argument rt (PDict props) k v = Inl ValueError" by simp
    then show ?thesis by (rule at(1))
  qed
  have abc: "validate_arguments rt (PDict tool_call) tool_signature =
              (case validate_loop rt (PDict props) before before of
                 Inl e \<Rightarrow> Inl e
               | Inr _ \<Rightarrow> Inl ValueError)"
    if "v = PStr ''abc''"
    by (rule bad [OF that, of "CHR ''a''"]) (simp_all add: is_digit_def int_isspace_def)
  have same: "validate_arguments rt (PDict tool_call) tool_signature =
              (case validate_loop rt (PDict props) (before @ after) (before @ after) of
                 Inl e \<Rightarrow> Inl e
               | Inr others \<Rightarrow>
                   Inr (PDict (dict_setitem ''arguments''
                          (PDict (take (length before) others @ (k, v)
                                    # drop (length before) others))
                          tool_call)))"
    if "py_isinstance v T_int"
  proof -
    from ck that have "coerce_argument rt (PDict props) k v = Inr v" by simp
    then show ?thesis by (rule at(2))
  qed
  show ?thesis
  proof (intro conjI impI allI)
    assume "v = PStr ''5''"
    then show "validate_arguments rt (PDict tool_call) tool_signature =
              (case validate_loop rt (PDict props) (before @ after) (before @ after) of
                 Inl e \<Rightarrow> Inl e
               | Inr others \<Rightarrow>
                   Inr (PDict (dict_setitem ''arguments''
                          (PDict (take (length before) others @ (k, PInt 5)
                                    # drop (length before) others))
                          tool_call)))"
      by (rule five)
  next
    fix s c
    assume "v = PStr s \<and> c \<in> set s \<and> \<not> is_digit c \<and> c \<noteq> CHR ''_'' \<and> c \<noteq> CHR ''+''
               \<and> c \<noteq> CHR ''-'' \<and> \<not> int_isspace c"
    then show "validate_arguments rt (PDict tool_call) tool_signature =
              (case validate_loop rt (PDict props) before before of
                 Inl e \<Rightarrow> Inl e
               | Inr _ \<Rightarrow> Inl ValueError)"
      using bad [of s c] by simp
  next
    assume "v = PStr ''abc''"
    then show "validate_arguments rt (PDict tool_call) tool_signature =
              (case validate_loop rt (PDict props) before before of
                 Inl e \<Rightarrow> Inl e
               | Inr _ \<Rightarrow> Inl ValueError)"
      by (rule abc)
  next
    assume "py_isinstance v T_int"
    then show "validate_arguments rt (PDict tool_call) tool_signature =
              (case validate_loop rt (PDict props) (before @ after) (before @ after) of
                 Inl e \<Rightarrow> Inl e
               | Inr others \<Rightarrow>
                   Inr (PDict (dict_setitem ''arguments''
                          (PDict (take (length before) others @ (k, v)
                                    # drop (length before) others))
                          tool_call)))"
      by (rule same)
  qed
qed

lemma example_int_of_str_15: "int_of_str example_runtime ''15'' = Inr 15"
  by (simp add: int_of_str_def int_strip_def int_isspace_def is_digit_def digit_value_def
      example_runtime_def)

theorem validate_arguments_int_witness:
  "validate_arguments example_runtime
     (PDict [(''name'', PStr ''add''), (''arguments'', PDict [(''a'', PStr ''15''), (''b'', PStr ''5'')]),
             (''id'', PInt 0)])
     (PDict [(''parameters'', PDict [(''properties'',
        PDict [(''a'', PDict [(''type'', PStr ''int'')]), (''b'', PDict [(''type'', PStr ''int'')])])])])
   = Inr (PDict [(''name'', PStr ''add''), (''arguments'', PDict [(''a'', PInt 15), (''b'', PInt 5)]),
                 (''id'', PInt 0)])
   \<and> validate_arguments example_runtime
     (PDict [(''name'', PStr ''add''), (''arguments'', PDict [(''a'', PStr ''15''), (''b'', PStr ''abc'')]),
             (''id'', PInt 0)])
     (PDict [(''parameters'', PDict [(''properties'',
        PDict [(''a'', PDict [(''type'', PStr ''int'')]), (''b'', PDict [(''type'', PStr ''int'')])])])])
   = Inl ValueError"
  using validate_arguments_int
          [of "PDict [(''parameters'', PDict [(''properties'',
                 PDict [(''a'', PDict [(''type'', PStr ''int'')]), (''b'', PDict [(''type'', PStr ''int'')])])])]"
              "PDict [(''properties'',
                 PDict [(''a'', PDict [(''type'', PStr ''int'')]), (''b'', PDict [(''type'', PStr ''int'')])])]"
              "[(''a'', PDict [(''type'', PStr ''int'')]), (''b'', PDict [(''type'', PStr ''int'')])]"
              "[(''name'', PStr ''add''), (''arguments'', PDict [(''a'', PStr ''15''), (''b'', PStr ''5'')]),
                (''id'', PInt 0)]"
              "[(''a'', PStr ''15'')]" "''b''" "PStr ''5''" "[]" example_runtime]
        validate_arguments_int
          [of "PDict [(''parameters'', PDict [(''properties'',
                 PDict [(''a'', PDict [(''type'', PStr ''int'')]), (''b'', PDict [(''type'', PStr ''int'')])])])]"
              "PDict [(''properties'',
                 PDict [(''a'', PDict [(''type'', PStr ''int'')]), (''b'', PDict [(''type'', PStr ''int'')])])]"
              "[(''a'', PDict [(''type'', PStr ''int'')]), (''b'', PDict [(''type'', PStr ''int'')])]"
              "[(''name'', PStr ''add''), (''arguments'', PDict [(''a'', PStr ''15''), (''b'', PStr ''abc'')]),
                (''id'', PInt 0)]"
              "[(''a'', PStr ''15'')]" "''b''" "PStr ''abc''" "[]" example_runtime]
  by (simp add: declared_type_def type_mapping_def example_int_of_str_15)

lemma dict_setitem_new:
  "k \<notin> set (map fst acc) \<Longrightarrow> dict_setitem k v acc = acc @ [(k, v)]"
  by (induction acc) auto

lemma schema_of_append:
  "schema_of (xs @ ys) acc =
     (case schema_of xs acc of Inl e \<Rightarrow> Inl e | Inr acc' \<Rightarrow> schema_of ys acc')"
proof (induction xs arbitrary: acc)
  case Nil
  then show ?case by simp
next
  case (Cons x xs)
  obtain k a where x: "x = (k, a)" by (cases x)
  show ?case unfolding x by (cases a) (simp_all add: Cons.IH)
qed

lemma schema_of_params:
  assumes "distinct (map fst ps)" and "''return'' \<notin> set (map fst ps)"
    and "\<forall>(k, a) \<in> set ps. a \<noteq> Some Unnamed"
    and "set (map fst ps) \<inter> set (map fst acc) = {}"
  shows "schema_of (List.map_filter (\<lambda>(k, a). map_option (Pair k) a) ps) acc
           = Inr (acc @ List.map_filter schema_entry ps)"
  using assms
proof (induction ps arbitrary: acc)
  case Nil
  then show ?case by (simp add: List.map_filter_simps)
next
  case (Cons p ps)
  obtain k a where p: "p = (k, a)" by (cases p)
  from Cons.prems p have d: "distinct (map fst ps)" "''return'' \<notin> set (map fst ps)"
    "\<forall>(k, a) \<in> set ps. a \<noteq> Some Unnamed" "k \<noteq> ''return''" "k \<notin> set (map fst ps)"
    "k \<notin> set (map fst acc)" "set (map fst ps) \<inter> set (map fst acc) = {}"
    by auto
  show ?case
  proof (cases a)
    case None
    with Cons.IH [OF d(1,2,3,7)] p show ?thesis by (simp add: List.map_filter_simps)
  next
    case (Some ann)
    with Cons.prems(3) p obtain n where n: "ann = Named n" by (cases ann) auto
    let ?acc = "acc @ [(k, PDict [(''type'', PStr n)])]"
    from d have "set (map fst ps) \<inter> set (map fst ?acc) = {}" by auto
    from Cons.IH [OF d(1,2,3) this] Some n p d(4,6) show ?thesis
      by (simp add: List.map_filter_simps dict_setitem_new)
  qed
qed

lemma schema_entry_fst: "schema_entry p = Some e \<Longrightarrow> fst e = fst p"
  by (cases p rule: schema_entry.cases) auto

lemma map_filter_all_named:
  assumes "\<forall>(k, a) \<in> set ps. \<exists>n. a = Some (Named n)"
  shows "map fst (List.map_filter schema_entry ps :: (string \<times> 'f pyval) list) = map fst ps"
  using assms by (induction ps) (auto simp: List.map_filter_simps)

lemma map_of_map_filter_entry:
  assumes "distinct (map fst ps)" "(k, Some (Named n)) \<in> set ps"
  shows "map_of (List.map_filter schema_entry ps) k
           = Some (PDict [(''type'', PStr n)] :: 'f pyval)"
  using assms
proof (induction ps)
  case Nil
  then show ?case by simp
next
  case (Cons p ps)
  obtain k' a where p: "p = (k', a)" by (cases p)
  show ?case
  proof (cases "p = (k, Some (Named n))")
    case True
    then show ?thesis by (simp add: List.map_filter_simps)
  next
    case False
    with Cons.prems have in_ps: "(k, Some (Named n)) \<in> set ps" by auto
    with Cons.prems p have "k' \<noteq> k" by (auto simp: image_iff)
    moreover from Cons.IH Cons.prems in_ps
    have "map_of (List.map_filter schema_entry ps) k
            = Some (PDict [(''type'', PStr n)] :: 'f pyval)" by simp
    ultimately show ?thesis unfolding p
      by (cases "(k', a)" rule: schema_entry.cases) (auto simp: List.map_filter_simps)
  qed
qed

text \<open>
  Claim C9, as amended. For a function defined with \<^verbatim>\<open>def\<close> (its parameter names are
  distinct and none is \<^verbatim>\<open>return\<close>) whose parameter annotations all have a \<^verbatim>\<open>__name__\<close>:
  the schema's name is the function's name, its description is the documentation string
  (\<^verbatim>\<open>None\<close> when there is none), and its parameters map exactly the annotated input
  parameters, in order and without the return annotation, each to the name of its
  annotation. Where every declared parameter is annotated with one of \<^verbatim>\<open>int\<close>, \<^verbatim>\<open>str\<close>,
  \<^verbatim>\<open>bool\<close>, \<^verbatim>\<open>float\<close>, the parameters of the schema are exactly the declared ones, each
  mapped to the name of its type.
\<close>

theorem get_fn_signature_schema:
  assumes "distinct (map fst (f_params f))" and "''return'' \<notin> set (map fst (f_params f))"
    and "\<forall>(k, a) \<in> set (f_params f). a \<noteq> Some Unnamed"
  shows "\<exists>schema. get_fn_signature f
            = Inr (PDict [(''name'', PStr (f_name f)),
                          (''description'', (case f_doc f of None \<Rightarrow> PNone | Some d \<Rightarrow> PStr d)),
                          (''parameters'', PDict [(''properties'', PDict schema)])])
          \<and> schema = List.map_filter schema_entry (f_params f)
          \<and> ((\<forall>(k, a) \<in> set (f_params f).
                 \<exists>n \<in> {''int'', ''str'', ''bool'', ''float''}. a = Some (Named n))
               \<longrightarrow> map fst schema = map fst (f_params f)
                 \<and> (\<forall>(k, a) \<in> set (f_params f).
                       \<exists>n \<in> {''int'', ''str'', ''bool'', ''float''}.
                         map_of schema k = Some (PDict [(''type'', PStr n)]) \<and> a = Some (Named n)))"
proof -
  let ?schema = "List.map_filter schema_entry (f_params f) :: (string \<times> 'a pyval) list"
  have "set (map fst (f_params f)) \<inter> set (map fst ([] :: (string \<times> 'a pyval) list)) = {}"
    by simp
  from schema_of_params [OF assms this]
  have s: "schema_of (List.map_filter (\<lambda>(k, a). map_option (Pair k) a) (f_params f)) []
             = Inr ?schema" by simp
  have "schema_of (annotations f) [] = Inr ?schema"
    unfolding annotations_def schema_of_append s by (simp split: option.splits)
  then have g: "get_fn_signature f
            = Inr (PDict [(''name'', PStr (f_name f)),
                          (''description'', (case f_doc f of None \<Rightarrow> PNone | Some d \<Rightarrow> PStr d)),
                          (''parameters'', PDict [(''properties'', PDict ?schema)])])"
    by (simp add: get_fn_signature_def)
  have p: "map fst ?schema = map fst (f_params f)
         \<and> (\<forall>(k, a) \<in> set (f_params f).
               \<exists>n \<in> {''int'', ''str'', ''bool'', ''float''}.
                 map_of ?schema k = Some (PDict [(''type'', PStr n)]) \<and> a = Some (Named n))"
    if prim: "\<forall>(k, a) \<in> set (f_params f).
                 \<exists>n \<in> {''int'', ''str'', ''bool'', ''float''}. a = Some (Named n)"
  proof
    from prim have "\<forall>(k, a) \<in> set (f_params f). \<exists>n. a = Some (Named n)" by blast
    then show "map fst ?schema = map fst (f_params f)" by (rule map_filter_all_named)
  next
    show "\<forall>(k, a) \<in> set (f_params f).
               \<exists>n \<in> {''int'', ''str'', ''bool'', ''float''}.
                 map_of ?schema k = Some (PDict [(''type'', PStr n)]) \<and> a = Some (Named n)"
    proof (intro ballI, clarify)
      fix k a assume ka: "(k, a) \<in> set (f_params f)"
      with prim obtain n where n: "n \<in> {''int'', ''str'', ''bool'', ''float''}" "a = Some (Named n)"
        by blast
      with ka have "(k, Some (Named n)) \<in> set (f_params f)" by simp
      from map_of_map_filter_entry [OF assms(1) this] n
      show "\<exists>n \<in> {''int'', ''str'', ''bool'', ''float''}.
                 map_of ?schema k = Some (PDict [(''type'', PStr n)]) \<and> a = Some (Named n)"
        by blast
    qed
  qed
  show ?thesis
  proof (rule exI [of _ ?schema], intro conjI impI)
    show "get_fn_signature f
            = Inr (PDict [(''name'', PStr (f_name f)),
                          (''description'', (case f_doc f of None \<Rightarrow> PNone | Some d \<Rightarrow> PStr d)),
                          (''parameters'', PDict [(''properties'', PDict ?schema)])])"
      by (rule g)
  next
    show "?schema = List.map_filter schema_entry (f_params f)" by (rule refl)
  next
    assume "\<forall>(k, a) \<in> set (f_params f).
                 \<exists>n \<in> {''int'', ''str'', ''bool'', ''float''}. a = Some (Named n)"
    from p [OF this] show "map fst ?schema = map fst (f_params f)" by (rule conjunct1)
  next
    assume "\<forall>(k, a) \<in> set (f_params f).
                 \<exists>n \<in> {''int'', ''str'', ''bool'', ''float''}. a = Some (Named n)"
    from p [OF this] show "\<forall>(k, a) \<in> set (f_params f).
               \<exists>n \<in> {''int'', ''str'', ''bool'', ''float''}.
                 map_of ?schema k = Some (PDict [(''type'', PStr n)]) \<and> a = Some (Named n)"
      by (rule conjunct2)
  qed
qed

theorem get_fn_signature_schema_witness:
  "(get_fn_signature
      \<lparr>f_name = ''add'', f_doc = Some ''Add two numbers'',
       f_params = [(''a'', Some (Named ''int'')), (''b'', Some (Named ''int''))],
       f_returns = Some (Named ''int'')\<rparr> :: error + unit pyval)
   = Inr (PDict [(''name'', PStr ''add''), (''description'', PStr ''Add two numbers''),
                 (''parameters'', PDict [(''properties'',
                    PDict [(''a'', PDict [(''type'', PStr ''int'')]),
                           (''b'', PDict [(''type'', PStr ''int'')])])])])"
  using get_fn_signature_schema
          [of "\<lparr>f_name = ''add'', f_doc = Some ''Add two numbers'',
                f_params = [(''a'', Some (Named ''int'')), (''b'', Some (Named ''int''))],
                f_returns = Some (Named ''int'')\<rparr>", where ?'a = unit]
  by (simp add: List.map_filter_simps)

text \<open>
  Claim C9 as the specification states it fails for \<^verbatim>\<open>def f(a, b: list) -> int\<close>: the
  parameter \<open>a\<close>, which has no annotation, is not in the schema, and \<open>b\<close> is mapped to
  \<^verbatim>\<open>list\<close>, which is not one of the four primitive types.
\<close>

theorem get_fn_signature_counterexample:
  "(get_fn_signature
      \<lparr>f_name = ''f'', f_doc = None,
       f_params = [(''a'', None), (''b'', Some (Named ''list''))],
       f_returns = Some (Named ''int'')\<rparr> :: error + unit pyval)
   = Inr (PDict [(''name'', PStr ''f''), (''description'', PNone),
                 (''parameters'', PDict [(''properties'',
                    PDict [(''b'', PDict [(''type'', PStr ''list'')])])])])"
  by (simp add: get_fn_signature_def annotations_def List.map_filter_simps)

section \<open>Properties of the tool-calling loop\<close>

lemma tool_call_tag_literal: "tag_literal ''tool_call''"
  by (simp add: tag_literal_def regex_special_def)

lemma extract_tag_content_found:
  "extract_tag_content t tag = Some r \<Longrightarrow> found r \<longleftrightarrow> tag_content r \<noteq> []"
  by (auto simp: extract_tag_content_def split: option.splits)

lemma two_answers_first:
  "extract_tag_content ''first answer'' ''tool_call'' = Some \<lparr>tag_content = [], found = False\<rparr>"
  by (simp add: extract_tag_content_def re_findall_tag_pattern_def compile_tag_def
      compile_char_def regex_special_def match_here_def)

text \<open>
  Claim C1, as amended. When the first response of the model holds no
  \<^verbatim>\<open><tool_call>\<close> span, \<open>ToolAgent.run\<close> invokes no tool and makes a second request, for
  a history that holds the user's message alone; what it returns is the outcome of that
  second request, an answer or the exception raised.
\<close>

theorem ToolAgent_run_no_tool_calls:
  assumes "completions_create (client self) (entries (tool_chat_history self user_msg))
             (model self) w = (Inr response, w1)"
    and "extract_tag_content response ''tool_call'' = Some tool_calls"
    and "tag_content tool_calls = []"
  shows "ToolAgent_run rt self user_msg (w, invoked) =
           (fst (completions_create (client self) [\<lparr>role = ''user'', content = user_msg\<rparr>]
                   (model self) w1),
            (snd (completions_create (client self) [\<lparr>role = ''user'', content = user_msg\<rparr>]
                    (model self) w1),
             invoked))"
proof -
  from extract_tag_content_found [OF assms(2)] assms(3) have nf: "\<not> found tool_calls" by simp
  have h: "entries (agent_chat_history user_msg) = [\<lparr>role = ''user'', content = user_msg\<rparr>]"
    by (simp add: agent_chat_history_def ChatHistory_def build_prompt_structure_def)
  show ?thesis
    unfolding ToolAgent_run_def using assms(1,2) nf
    by (simp add: h split: prod.splits)
qed

theorem ToolAgent_run_no_tool_calls_witness:
  "ToolAgent_run example_runtime (ToolAgent_init two_answers_client [] ''m'') ''q'' (False, [])
     = (Inr ''second answer'', (True, []))"
proof -
  let ?self = "ToolAgent_init two_answers_client [] ''m'' :: (unit, bool) ToolAgent"
  have h1: "completions_create (client ?self) (entries (tool_chat_history ?self ''q''))
              (model ?self) False = (Inr ''first answer'', True)"
    by (simp add: completions_create_def ToolAgent_init_def two_answers_client_def)
  have h3: "tag_content \<lparr>tag_content = [], found = False\<rparr> = []" by simp
  from ToolAgent_run_no_tool_calls [OF h1 two_answers_first h3, of example_runtime "[]"]
  show ?thesis
    by (simp add: completions_create_def ToolAgent_init_def two_answers_client_def)
qed

text \<open>
  Claim C1 as the specification states it fails: the first response, which holds no
  \<^verbatim>\<open><tool_call>\<close> span, is not what the run returns. The run returns the answer to its
  second request.
\<close>

theorem ToolAgent_run_first_response_counterexample:
  "fst (completions_create two_answers_client
          (entries (tool_chat_history
             (ToolAgent_init two_answers_client [] ''m'' :: (unit, bool) ToolAgent) ''q''))
          ''m'' False) = Inr ''first answer''
   \<and> extract_tag_content ''first answer'' ''tool_call''
       = Some \<lparr>tag_content = [], found = False\<rparr>
   \<and> fst (ToolAgent_run example_runtime
            (ToolAgent_init two_answers_client [] ''m'') ''q'' (False, []))
       = Inr ''second answer''"
  by (simp add: two_answers_first ToolAgent_run_def completions_create_def ToolAgent_init_def
      two_answers_client_def)

end
